theory Spec2Isabelle
  imports Main "HOL-Library.Multiset" "HOL-Library.Char_ord" "HOL-Library.List_Lexorder"
begin

section \<open>Data model of server.js\<close>

text \<open>
  The server keeps two in-process registries (\<open>clients\<close>, \<open>roomConsumers\<close>) and talks to
  three external services: a key/value store (room set, room hashes, the per-room
  recent-message lists, the token blacklist), a document archive (the Message collection)
  and a message broker (one topic per room). The model is a record holding the registries
  and the contents of the three services. Commands sent to the key/value store and to the
  archive take effect; broker calls may throw, as decided by an \<open>io\<close> record that also
  supplies the clock reading and the generated uuid of the operation.

  A handler pauses at every call it awaits, and other handlers run in the meantime. Two
  pauses fall in the middle of an update of \<open>roomConsumers\<close>: the one in
  \<open>getOrCreateRoomConsumer\<close>, between the lookup of the room and the registration of its
  new entry, and the one in \<open>handleLeaveRoom\<close>, between the removal of the last subscriber
  and the removal of the entry. These two handlers are given in the parts before and
  after the pause, and as the whole that results when nothing else runs during the pause.
  At every other awaited call the handler is taken to go on at once.

  A JavaScript string is a \<open>string\<close> whose characters stand for code units below 256.
\<close>

type_synonym roomId = string
type_synonym clientId = string

text \<open>The decoded token payload: \<open>{ id, name, iat, exp }\<close>, times in seconds.\<close>

record jwt_payload =
  p_id :: string
  p_name :: string
  p_iat :: int
  p_exp :: int

text \<open>
  A token string is either not a well-formed signed token, or a payload together with the
  key its signature was made with.
\<close>

datatype token = Malformed string | Jwt string jwt_payload

text \<open>A chat or system message as it travels on the bus and sits in the recent-message list.\<close>

record message =
  msg_type :: string
  msg_roomId :: string
  msg_content :: string
  msg_userId :: "string option"
  msg_username :: "string option"
  msg_timestamp :: int
  msg_id :: string

text \<open>Frames written to a client socket by \<open>sendToClient\<close>.\<close>

datatype frame =
    SystemFrame string
  | ErrorFrame string
  | HistoryFrame roomId "message list" string
  | BusFrame message

text \<open>Frames received from a client, after \<open>JSON.parse\<close> and the \<open>switch\<close> on \<open>type\<close>.
  The content of a \<open>message\<close> frame is \<open>None\<close> when it is absent or not a string.\<close>

datatype client_frame =
    JoinReq roomId
  | LeaveReq roomId
  | MessageReq roomId "string option"
  | UnknownType
  | Unparseable

text \<open>
  An entry of the \<open>clients\<close> map. A JavaScript \<open>Set\<close> is a duplicate-free list in
  insertion order.
\<close>

record client =
  c_user :: jwt_payload
  c_rooms :: "roomId list"
  c_open :: bool
  c_sent :: "frame list"

text \<open>An entry of the \<open>roomConsumers\<close> map: the consumer handle and the subscriber set.\<close>

record room_consumer =
  rc_consumer :: nat
  rc_subscribers :: "clientId list"

text \<open>The hash stored under \<open>room:<id>\<close>.\<close>

record room_info =
  r_id :: string
  r_name :: string
  r_created :: int
  r_createdBy :: "string option"

record server =
  clients :: "clientId \<rightharpoonup> client"
  roomConsumers :: "roomId \<rightharpoonup> room_consumer"
  rooms :: "roomId set"
  room_data :: "roomId \<rightharpoonup> room_info"
  chat_history :: "roomId \<Rightarrow> message list"
  blacklist :: "token \<rightharpoonup> int"
  archive :: "message list"
  topics :: "string \<Rightarrow> message list"
  consumers_created :: nat
  consumers_connected :: "nat set"

text \<open>
  \<open>blacklist\<close> maps a token to the instant (in milliseconds) at which its entry expires;
  \<open>archive\<close> lists the stored documents in insertion order (the bookkeeping fields
  \<open>_id\<close>, \<open>createdAt\<close> and \<open>__v\<close> are left out); \<open>topics\<close> is the log of each topic;
  \<open>consumers_created\<close> counts the broker consumers made for rooms, the next handle being
  that number, and \<open>consumers_connected\<close> holds the handles that are connected.
\<close>

text \<open>What the outside world contributes to one operation.\<close>

record io =
  io_now :: int
  io_uuid :: string
  connect_ok :: bool
  subscribe_ok :: bool
  run_ok :: bool
  disconnect_ok :: bool
  send_ok :: bool

datatype completion = Done | Thrown

subsection \<open>Constants\<close>

definition SECRET :: string where
  "SECRET = ''super_secret_key''"

definition TOPIC_PREFIX :: string where
  "TOPIC_PREFIX = ''chat_room_''"

definition DEFAULT_ROOMS :: "string list" where
  "DEFAULT_ROOMS = [''general'', ''random'', ''tech'']"

definition MAX_MESSAGES_PER_ROOM :: int where
  "MAX_MESSAGES_PER_ROOM = 50"

definition users :: "string \<rightharpoonup> (string \<times> string)" where
  "users = [''user1'' \<mapsto> (''pass1'', ''Alice''),
            ''user2'' \<mapsto> (''pass2'', ''Bob''),
            ''user3'' \<mapsto> (''pass3'', ''Charlie'')]"

section \<open>Library behaviour the code relies on\<close>

subsection \<open>JavaScript sets, strings and arrays\<close>

definition set_add :: "'a \<Rightarrow> 'a list \<Rightarrow> 'a list" where
  "set_add x xs = (if x \<in> set xs then xs else xs @ [x])"

definition set_delete :: "'a \<Rightarrow> 'a list \<Rightarrow> 'a list" where
  "set_delete x xs = filter (\<lambda>y. y \<noteq> x) xs"

definition js_whitespace :: "char \<Rightarrow> bool" where
  "js_whitespace c = (of_char c \<in> {9, 10, 11, 12, 13, 32, 160 :: nat})"

definition js_trim :: "string \<Rightarrow> string" where
  "js_trim s = rev (dropWhile js_whitespace (rev (dropWhile js_whitespace s)))"

definition js_toLowerCase_char :: "char \<Rightarrow> char" where
  "js_toLowerCase_char c =
     (let n = (of_char c :: nat)
      in if (65 \<le> n \<and> n \<le> 90) \<or> (192 \<le> n \<and> n \<le> 222 \<and> n \<noteq> 215)
         then char_of (n + 32) else c)"

definition js_toLowerCase :: "string \<Rightarrow> string" where
  "js_toLowerCase s = map js_toLowerCase_char s"

definition js_toUpperCase_char :: "char \<Rightarrow> char" where
  "js_toUpperCase_char c =
     (let n = (of_char c :: nat)
      in if (97 \<le> n \<and> n \<le> 122) \<or> (224 \<le> n \<and> n \<le> 254 \<and> n \<noteq> 247)
         then char_of (n - 32) else c)"

text \<open>The character class \<open>[a-z0-9]\<close>.\<close>

definition lower_alnum :: "char \<Rightarrow> bool" where
  "lower_alnum c =
     (let n = (of_char c :: nat) in (97 \<le> n \<and> n \<le> 122) \<or> (48 \<le> n \<and> n \<le> 57))"

text \<open>\<open>xs.slice(0, e)\<close>: a negative end counts from the end of the array.\<close>

definition js_slice0 :: "'a list \<Rightarrow> int \<Rightarrow> 'a list" where
  "js_slice0 xs e =
     (let n = int (length xs);
          k = (if e < 0 then max (n + e) 0 else min e n)
      in take (nat k) xs)"

subsection \<open>Token library\<close>

text \<open>
  \<open>jwt.sign(payload, key, { expiresIn: '1h' })\<close> stamps the payload with the issue time
  and an expiry 3600 seconds later. \<open>jwt.verify(token, key)\<close> returns the payload when
  the token is well formed, was signed with that key and has not expired (the clock, in
  whole seconds, is still below \<open>exp\<close>); otherwise it throws, which is \<open>None\<close> here.
\<close>

definition jwt_sign :: "string \<Rightarrow> string \<Rightarrow> string \<Rightarrow> int \<Rightarrow> token" where
  "jwt_sign uid uname key now =
     Jwt key \<lparr>p_id = uid, p_name = uname, p_iat = now div 1000, p_exp = now div 1000 + 3600\<rparr>"

definition jwt_verify :: "token \<Rightarrow> string \<Rightarrow> int \<Rightarrow> jwt_payload option" where
  "jwt_verify t key now =
     (case t of
        Malformed _ \<Rightarrow> None
      | Jwt k p \<Rightarrow> if k = key \<and> now div 1000 < p_exp p then Some p else None)"

subsection \<open>Key/value store\<close>

text \<open>
  \<open>LRANGE key start stop\<close> and \<open>LTRIM key start stop\<close>: both ends are inclusive,
  a negative index counts from the tail, an index past the tail is clamped.
\<close>

definition redis_range :: "'a list \<Rightarrow> int \<Rightarrow> int \<Rightarrow> 'a list" where
  "redis_range xs start stop =
     (let n = int (length xs);
          s0 = (if start < 0 then n + start else start);
          e0 = (if stop < 0 then n + stop else stop);
          s1 = (if s0 < 0 then 0 else s0)
      in if s1 > e0 \<or> s1 \<ge> n then []
         else let e1 = (if e0 \<ge> n then n - 1 else e0)
              in take (nat (e1 - s1 + 1)) (drop (nat s1) xs))"

definition redis_lrange :: "server \<Rightarrow> roomId \<Rightarrow> int \<Rightarrow> int \<Rightarrow> message list" where
  "redis_lrange s roomId start stop = redis_range (chat_history s roomId) start stop"

definition redis_lpush :: "server \<Rightarrow> roomId \<Rightarrow> message \<Rightarrow> server" where
  "redis_lpush s roomId m =
     s\<lparr>chat_history := (chat_history s)(roomId := m # chat_history s roomId)\<rparr>"

definition redis_ltrim :: "server \<Rightarrow> roomId \<Rightarrow> int \<Rightarrow> int \<Rightarrow> server" where
  "redis_ltrim s roomId start stop =
     s\<lparr>chat_history := (chat_history s)(roomId := redis_range (chat_history s roomId) start stop)\<rparr>"

text \<open>
  \<open>GET blacklist:<token>\<close> finds the entry up to and including its expiry instant;
  \<open>SET blacklist:<token> 1 EX ttl\<close> refuses a ttl that is not positive (\<open>None\<close>) and
  otherwise stores an entry that expires \<open>ttl\<close> seconds later.
\<close>

definition redis_get_blacklist :: "server \<Rightarrow> int \<Rightarrow> token \<Rightarrow> bool" where
  "redis_get_blacklist s now t =
     (case blacklist s t of None \<Rightarrow> False | Some expires \<Rightarrow> now \<le> expires)"

definition redis_set_blacklist :: "server \<Rightarrow> int \<Rightarrow> token \<Rightarrow> int \<Rightarrow> server option" where
  "redis_set_blacklist s now t ttl =
     (if ttl \<le> 0 then None
      else Some (s\<lparr>blacklist := (blacklist s)(t \<mapsto> now + ttl * 1000)\<rparr>))"

subsection \<open>Document archive\<close>

text \<open>
  \<open>Message.find(query).sort({ timestamp: -1 }).limit(n).lean()\<close>: the documents that
  match, newest first, cut to \<open>|n|\<close> documents (\<open>n = 0\<close> means no limit). Documents with
  equal timestamps are taken in insertion order.
\<close>

definition mongo_find :: "(message \<Rightarrow> bool) \<Rightarrow> int \<Rightarrow> message list \<Rightarrow> message list" where
  "mongo_find query n docs =
     (let sorted_docs = sort_key (\<lambda>m. - msg_timestamp m) (filter query docs)
      in if n = 0 then sorted_docs else take (nat \<bar>n\<bar>) sorted_docs)"

text \<open>
  \<open>Message.create(doc)\<close> validates the schema (the required strings must be non-empty)
  and appends the document; the \<open>id\<close> index is not unique. A failed validation throws,
  which is \<open>None\<close> here.
\<close>

definition messageSchema_valid :: "message \<Rightarrow> bool" where
  "messageSchema_valid d =
     (msg_id d \<noteq> [] \<and> msg_type d \<noteq> [] \<and> msg_roomId d \<noteq> [] \<and> msg_content d \<noteq> [])"

definition Message_create :: "server \<Rightarrow> message \<Rightarrow> server option" where
  "Message_create s d =
     (if messageSchema_valid d then Some (s\<lparr>archive := archive s @ [d]\<rparr>) else None)"

subsection \<open>Broker\<close>

definition producer_send :: "server \<Rightarrow> string \<Rightarrow> message \<Rightarrow> server" where
  "producer_send s topic m = s\<lparr>topics := (topics s)(topic := topics s topic @ [m])\<rparr>"

section \<open>Token authority and HTTP authentication\<close>

datatype http_error = HttpError nat string

text \<open>
  In the HTTP handlers the argument \<open>authHeader\<close> is \<open>None\<close> when the request has no
  Authorization header, and otherwise the token found after the first space of the header
  (\<open>Malformed\<close> when there is none or it is not a token).
\<close>

definition login :: "string \<Rightarrow> string \<Rightarrow> int \<Rightarrow> http_error + (token \<times> string \<times> string)" where
  "login username password now =
     (if username = [] \<or> password = [] then Inl (HttpError 400 ''Username and password required'')
      else case users username of
             None \<Rightarrow> Inl (HttpError 401 ''Invalid credentials'')
           | Some (pw, name) \<Rightarrow>
               if pw \<noteq> password then Inl (HttpError 401 ''Invalid credentials'')
               else Inr (jwt_sign username name SECRET now, username, name))"

definition logout :: "server \<Rightarrow> int \<Rightarrow> token option \<Rightarrow> server \<times> nat \<times> string" where
  "logout s now authHeader =
     (case authHeader of
        None \<Rightarrow> (s, 401, ''Unauthorized'')
      | Some tok \<Rightarrow>
          (case jwt_verify tok SECRET now of
             None \<Rightarrow> (s, 400, ''Invalid token'')
           | Some decoded \<Rightarrow>
               (let ttl = p_exp decoded - now div 1000
                in case redis_set_blacklist s now tok ttl of
                     None \<Rightarrow> (s, 400, ''Invalid token'')
                   | Some s' \<Rightarrow> (s', 200, ''Logged out and token blacklisted''))))"

definition authenticate :: "server \<Rightarrow> int \<Rightarrow> token option \<Rightarrow> http_error + jwt_payload" where
  "authenticate s now authHeader =
     (case authHeader of
        None \<Rightarrow> Inl (HttpError 401 ''No token provided'')
      | Some tok \<Rightarrow>
          if redis_get_blacklist s now tok then Inl (HttpError 401 ''Token is blacklisted'')
          else (case jwt_verify tok SECRET now of
                  Some user \<Rightarrow> Inr user
                | None \<Rightarrow> Inl (HttpError 401 ''Invalid token'')))"

section \<open>Rooms\<close>

definition capitalize :: "string \<Rightarrow> string" where
  "capitalize room = (case room of [] \<Rightarrow> [] | c # cs \<Rightarrow> js_toUpperCase_char c # cs)"

definition initializeDefaultRooms :: "server \<Rightarrow> int \<Rightarrow> server" where
  "initializeDefaultRooms s0 now =
     fold (\<lambda>room s.
             if room_data s room \<noteq> None then s
             else s\<lparr>rooms := insert room (rooms s),
                    room_data := (room_data s)(room \<mapsto>
                      \<lparr>r_id = room, r_name = capitalize room, r_created = now,
                       r_createdBy = None\<rparr>)\<rparr>)
          DEFAULT_ROOMS s0"

text \<open>\<open>name.toLowerCase().replace(/[^a-z0-9]/g, '-')\<close>\<close>

definition slugify :: "string \<Rightarrow> roomId" where
  "slugify name = map (\<lambda>c. if lower_alnum c then c else CHR ''-'') (js_toLowerCase name)"

text \<open>The handler of \<open>POST /api/rooms\<close>, behind the \<open>authenticate\<close> middleware.
  An absent name is the empty string.\<close>

definition createRoom :: "server \<Rightarrow> int \<Rightarrow> jwt_payload \<Rightarrow> string \<Rightarrow> server \<times> (http_error + room_info)" where
  "createRoom s now user name =
     (if name = [] then (s, Inl (HttpError 400 ''Room name is required''))
      else let roomId = slugify name
           in if roomId \<in> rooms s then (s, Inl (HttpError 409 ''Room already exists''))
              else let roomData = \<lparr>r_id = roomId, r_name = name, r_created = now,
                                   r_createdBy = Some (p_id user)\<rparr>
                   in (s\<lparr>rooms := insert roomId (rooms s),
                         room_data := (room_data s)(roomId \<mapsto> roomData)\<rparr>,
                       Inr roomData))"

definition post_api_rooms :: "server \<Rightarrow> int \<Rightarrow> token option \<Rightarrow> string \<Rightarrow> server \<times> (http_error + room_info)" where
  "post_api_rooms s now authHeader name =
     (case authenticate s now authHeader of
        Inl err \<Rightarrow> (s, Inl err)
      | Inr user \<Rightarrow> createRoom s now user name)"

section \<open>History\<close>

text \<open>
  The query string of \<open>GET /api/rooms/:roomId/messages\<close>. The numeric fields hold the
  result of \<open>parseInt\<close>, \<open>None\<close> standing for an absent or non-numeric parameter.
\<close>

record query =
  q_limit :: "int option"
  q_before :: "int option"
  q_after :: "int option"
  q_source :: "string option"

text \<open>A returned message: the message with its \<open>source\<close> tag.\<close>

record page_message =
  pm_message :: message
  pm_source :: string

record pagination =
  pg_count :: nat
  pg_hasMore :: bool
  pg_oldest :: "int option"
  pg_newest :: "int option"

record history_response =
  hr_messages :: "page_message list"
  hr_pagination :: pagination

definition pm_timestamp :: "page_message \<Rightarrow> int" where
  "pm_timestamp p = msg_timestamp (pm_message p)"

definition tag :: "string \<Rightarrow> message \<Rightarrow> page_message" where
  "tag src m = \<lparr>pm_message = m, pm_source = src\<rparr>"

text \<open>
  \<open>messages.sort((a, b) => b.timestamp - a.timestamp)\<close>: a stable sort, newest first.
\<close>

definition sort_page :: "page_message list \<Rightarrow> page_message list" where
  "sort_page ps = sort_key (\<lambda>p. - pm_timestamp p) ps"

text \<open>A cursor is used when it is truthy: present and not zero.\<close>

definition cursor :: "int option \<Rightarrow> int option" where
  "cursor v = (case v of None \<Rightarrow> None | Some n \<Rightarrow> if n = 0 then None else Some n)"

text \<open>\<open>Math.min(parseInt(limit) || MAX_MESSAGES_PER_ROOM, 100)\<close>\<close>

definition parsedLimit :: "query \<Rightarrow> int" where
  "parsedLimit q =
     min (case q_limit q of
            None \<Rightarrow> MAX_MESSAGES_PER_ROOM
          | Some n \<Rightarrow> if n = 0 then MAX_MESSAGES_PER_ROOM else n) 100"

text \<open>The archive query \<open>{ roomId, timestamp: { $lt: lt, $gt: gt } }\<close>.\<close>

definition mongo_query :: "roomId \<Rightarrow> int option \<Rightarrow> int option \<Rightarrow> message \<Rightarrow> bool" where
  "mongo_query roomId lt gt m =
     (msg_roomId m = roomId
      \<and> (case lt of None \<Rightarrow> True | Some b \<Rightarrow> msg_timestamp m < b)
      \<and> (case gt of None \<Rightarrow> True | Some a \<Rightarrow> msg_timestamp m > a))"

text \<open>The three cases of the handler, before the final sort.\<close>

definition fetch_messages :: "server \<Rightarrow> roomId \<Rightarrow> query \<Rightarrow> page_message list" where
  "fetch_messages s roomId q =
     (let lim = parsedLimit q;
          parsedBefore = cursor (q_before q);
          parsedAfter = cursor (q_after q)
      in if q_source q = Some ''redis'' then
           sort_page (map (tag ''redis'') (redis_lrange s roomId 0 (lim - 1)))
         else if q_source q = Some ''mongodb'' then
           map (tag ''mongodb'')
             (mongo_find (mongo_query roomId parsedBefore parsedAfter) lim (archive s))
         else
           let parsedRedisMessages = map (tag ''redis'') (redis_lrange s roomId 0 (lim - 1))
           in if parsedBefore \<noteq> None then
                map (tag ''mongodb'')
                  (mongo_find (mongo_query roomId parsedBefore None) lim (archive s))
              else if int (length parsedRedisMessages) \<ge> lim then
                js_slice0 parsedRedisMessages lim
              else if length parsedRedisMessages > 0 then
                let oldestRedisMessage = last parsedRedisMessages;
                    olderMessages =
                      mongo_find
                        (mongo_query roomId (Some (pm_timestamp oldestRedisMessage)) None)
                        (lim - int (length parsedRedisMessages)) (archive s)
                in parsedRedisMessages @ map (tag ''mongodb'') olderMessages
              else
                map (tag ''mongodb'')
                  (mongo_find (mongo_query roomId None parsedAfter) lim (archive s)))"

definition getMessages :: "server \<Rightarrow> roomId \<Rightarrow> query \<Rightarrow> http_error + history_response" where
  "getMessages s roomId q =
     (if roomId \<notin> rooms s then Inl (HttpError 404 ''Room not found'')
      else let messages = sort_page (fetch_messages s roomId q);
               oldest = (if length messages > 0
                         then Some (Min (set (map pm_timestamp messages))) else None);
               newest = (if length messages > 0
                         then Some (Max (set (map pm_timestamp messages))) else None)
           in Inr \<lparr>hr_messages = messages,
                   hr_pagination = \<lparr>pg_count = length messages,
                                     pg_hasMore = (int (length messages) = parsedLimit q),
                                     pg_oldest = oldest, pg_newest = newest\<rparr>\<rparr>)"

definition get_api_messages :: "server \<Rightarrow> int \<Rightarrow> token option \<Rightarrow> roomId \<Rightarrow> query \<Rightarrow> http_error + history_response" where
  "get_api_messages s now authHeader roomId q =
     (case authenticate s now authHeader of
        Inl err \<Rightarrow> Inl err
      | Inr user \<Rightarrow> getMessages s roomId q)"

section \<open>Real-time connections\<close>

text \<open>
  The liveness probe (ping, pong and the forced termination after a silent minute) and
  the socket error handler only end connections: a connection that ends shows up as a
  close event.
\<close>

definition wsAuthenticate :: "server \<Rightarrow> int \<Rightarrow> token option \<Rightarrow> jwt_payload option" where
  "wsAuthenticate s now tok =
     (case tok of
        None \<Rightarrow> None
      | Some t \<Rightarrow> if redis_get_blacklist s now t then None else jwt_verify t SECRET now)"

definition sendToClient :: "server \<Rightarrow> clientId \<Rightarrow> frame \<Rightarrow> server" where
  "sendToClient s clientId f =
     (case clients s clientId of
        None \<Rightarrow> s
      | Some c \<Rightarrow>
          if c_open c then s\<lparr>clients := (clients s)(clientId \<mapsto> c\<lparr>c_sent := c_sent c @ [f]\<rparr>)\<rparr>
          else s)"

text \<open>
  \<open>getOrCreateRoomConsumer\<close> looks the room up in the registry and, when it has no entry,
  creates a consumer and awaits its \<open>connect\<close>, \<open>subscribe\<close> and \<open>run\<close> calls before it
  registers the entry. \<open>consumer_begin\<close> is the part before the first of these calls: it
  yields the handle of the consumer it created, or \<open>None\<close> when the room has an entry and
  nothing is awaited. \<open>consumer_resume\<close> is the part after the calls, in the state that the
  server has by then; a consumer that connected and then failed to subscribe or run stays
  connected and is in no registry entry.
\<close>

definition consumer_begin :: "server \<Rightarrow> roomId \<Rightarrow> server \<times> nat option" where
  "consumer_begin s roomId =
     (if roomConsumers s roomId \<noteq> None then (s, None)
      else (s\<lparr>consumers_created := Suc (consumers_created s)\<rparr>, Some (consumers_created s)))"

definition consumer_resume :: "server \<Rightarrow> io \<Rightarrow> roomId \<Rightarrow> nat \<Rightarrow> server \<times> completion" where
  "consumer_resume s e roomId consumer =
     (if \<not> connect_ok e then (s, Thrown)
      else let s2 = s\<lparr>consumers_connected := insert consumer (consumers_connected s)\<rparr>
           in if \<not> subscribe_ok e then (s2, Thrown)
              else if \<not> run_ok e then (s2, Thrown)
              else (s2\<lparr>roomConsumers := (roomConsumers s2)(roomId \<mapsto>
                          \<lparr>rc_consumer = consumer, rc_subscribers = []\<rparr>)\<rparr>, Done))"

text \<open>
  The call during whose pause nothing else runs. It returns what the registry holds for
  the room in the end, or \<open>None\<close> when creating the consumer threw.
\<close>

definition getOrCreateRoomConsumer :: "server \<Rightarrow> io \<Rightarrow> roomId \<Rightarrow> server \<times> room_consumer option" where
  "getOrCreateRoomConsumer s e roomId =
     (case consumer_begin s roomId of
        (s1, None) \<Rightarrow> (s1, roomConsumers s1 roomId)
      | (s1, Some consumer) \<Rightarrow>
          (case consumer_resume s1 e roomId consumer of
             (s2, Thrown) \<Rightarrow> (s2, None)
           | (s2, Done) \<Rightarrow> (s2, roomConsumers s2 roomId)))"

text \<open>
  The \<open>eachMessage\<close> callback that \<open>getOrCreateRoomConsumer\<close> registers for a room:
  the bus message goes to every subscriber of the room, in the order of the set.
\<close>

definition room_eachMessage :: "server \<Rightarrow> roomId \<Rightarrow> message \<Rightarrow> server" where
  "room_eachMessage s roomId parsedMessage =
     (case roomConsumers s roomId of
        None \<Rightarrow> s
      | Some d \<Rightarrow>
          fold (\<lambda>clientId s'. sendToClient s' clientId (BusFrame parsedMessage))
            (rc_subscribers d) s)"

text \<open>
  The history part of a join: the recent messages oldest first, then, when the recent
  list is not full, the archived messages older than its oldest entry.
\<close>

definition sendRoomHistory :: "server \<Rightarrow> clientId \<Rightarrow> roomId \<Rightarrow> server" where
  "sendRoomHistory s clientId roomId =
     (let recentMessages = redis_lrange s roomId 0 (MAX_MESSAGES_PER_ROOM - 1);
          s1 = sendToClient s clientId (HistoryFrame roomId (rev recentMessages) ''recent'')
      in if int (length recentMessages) < MAX_MESSAGES_PER_ROOM then
           let oldestTimestamp =
                 (if length recentMessages > 0
                  then Some (msg_timestamp (last recentMessages)) else None);
               olderMessages =
                 mongo_find (mongo_query roomId oldestTimestamp None)
                   (MAX_MESSAGES_PER_ROOM - int (length recentMessages)) (archive s1)
           in if length olderMessages > 0
              then sendToClient s1 clientId (HistoryFrame roomId olderMessages ''archive'')
              else s1
         else s1)"

definition system_notice :: "roomId \<Rightarrow> string \<Rightarrow> io \<Rightarrow> message" where
  "system_notice roomId text e =
     \<lparr>msg_type = ''system'', msg_roomId = roomId, msg_content = text,
      msg_userId = None, msg_username = None,
      msg_timestamp = io_now e, msg_id = io_uuid e\<rparr>"

text \<open>
  \<open>join_finish\<close> is \<open>handleJoinRoom\<close> from the point where \<open>getOrCreateRoomConsumer\<close> has
  returned the entry \<open>d\<close>: the client is added to the entry's subscribers and the room to
  the client's rooms, the history is sent and the join notice published. The client
  object is the one that the handler looked up when it started; when the connection has
  been closed and forgotten since, the object is no longer in \<open>clients\<close>.
\<close>

definition join_finish :: "server \<Rightarrow> io \<Rightarrow> clientId \<Rightarrow> jwt_payload \<Rightarrow> roomId \<Rightarrow> room_consumer \<Rightarrow> server \<times> completion" where
  "join_finish s1 e clientId user roomId d =
     (let s2 = s1\<lparr>roomConsumers := (roomConsumers s1)(roomId \<mapsto>
                  d\<lparr>rc_subscribers := set_add clientId (rc_subscribers d)\<rparr>)\<rparr>;
          s3 = (case clients s2 clientId of
                  None \<Rightarrow> s2
                | Some client \<Rightarrow>
                    s2\<lparr>clients := (clients s2)(clientId \<mapsto>
                          client\<lparr>c_rooms := set_add roomId (c_rooms client)\<rparr>)\<rparr>);
          s4 = sendRoomHistory s3 clientId roomId;
          joinMessage = system_notice roomId (p_name user @ '' has joined the room'') e
      in if send_ok e
         then (producer_send s4 (TOPIC_PREFIX @ roomId) joinMessage, Done)
         else (s4, Thrown))"

definition handleJoinRoom :: "server \<Rightarrow> io \<Rightarrow> clientId \<Rightarrow> jwt_payload \<Rightarrow> roomId \<Rightarrow> server \<times> completion" where
  "handleJoinRoom s e clientId user roomId =
     (case clients s clientId of
        None \<Rightarrow> (s, Done)
      | Some client \<Rightarrow>
          if roomId \<notin> rooms s then
            (sendToClient s clientId (ErrorFrame ''Room not found''), Done)
          else if roomId \<in> set (c_rooms client) then
            (sendToClient s clientId (ErrorFrame ''You are already in this room''), Done)
          else
            (case getOrCreateRoomConsumer s e roomId of
               (s1, None) \<Rightarrow> (s1, Thrown)
             | (s1, Some d) \<Rightarrow> join_finish s1 e clientId user roomId d))"

text \<open>
  \<open>handleLeaveRoom\<close> catches every error itself. \<open>leave_notice\<close> is its last part, the
  publication of the leave notice: when that throws, the catch block removes the room
  from the client's set if it is there.
\<close>

definition leave_notice :: "server \<Rightarrow> io \<Rightarrow> clientId \<Rightarrow> string \<Rightarrow> roomId \<Rightarrow> server" where
  "leave_notice s e clientId name roomId =
     (if send_ok e then
        producer_send s (TOPIC_PREFIX @ roomId)
          (system_notice roomId (name @ '' has left the room'') e)
      else
        (case clients s clientId of
           None \<Rightarrow> s
         | Some client \<Rightarrow>
             if roomId \<in> set (c_rooms client)
             then s\<lparr>clients := (clients s)(clientId \<mapsto>
                       client\<lparr>c_rooms := set_delete roomId (c_rooms client)\<rparr>)\<rparr>
             else s))"

text \<open>
  \<open>leave_begin\<close> is \<open>handleLeaveRoom\<close> up to its first pause. When the client was the last
  subscriber of the room, that pause is at \<open>await roomConsumerData.consumer.disconnect()\<close>:
  the subscriber set of the entry is empty by then and the entry is still in the
  registry. The result \<open>Some (name, consumer)\<close> says that the handler is paused there,
  holding the name of the leaving user and the consumer it is disconnecting; \<open>None\<close> says
  that the handler has gone through. \<open>leave_resume\<close> is the part after that pause, in the
  state that the server has by then: the entry of the room is removed from the registry
  and the notice is published.
\<close>

definition leave_begin :: "server \<Rightarrow> io \<Rightarrow> clientId \<Rightarrow> roomId \<Rightarrow> server \<times> (string \<times> nat) option" where
  "leave_begin s e clientId roomId =
     (case clients s clientId of
        None \<Rightarrow> (s, None)
      | Some client \<Rightarrow>
          if roomId \<notin> set (c_rooms client) then (s, None)
          else
            let name = p_name (c_user client);
                s1 = s\<lparr>clients := (clients s)(clientId \<mapsto>
                         client\<lparr>c_rooms := set_delete roomId (c_rooms client)\<rparr>)\<rparr>
            in case roomConsumers s1 roomId of
                 None \<Rightarrow> (leave_notice s1 e clientId name roomId, None)
               | Some d \<Rightarrow>
                   let subs = set_delete clientId (rc_subscribers d);
                       s2 = s1\<lparr>roomConsumers := (roomConsumers s1)(roomId \<mapsto>
                                d\<lparr>rc_subscribers := subs\<rparr>)\<rparr>
                   in if length subs = 0 then (s2, Some (name, rc_consumer d))
                      else (leave_notice s2 e clientId name roomId, None))"

definition leave_resume :: "server \<Rightarrow> io \<Rightarrow> clientId \<Rightarrow> string \<Rightarrow> roomId \<Rightarrow> nat \<Rightarrow> server" where
  "leave_resume s e clientId name roomId consumer =
     (let s1 = (if disconnect_ok e
                then s\<lparr>consumers_connected := consumers_connected s - {consumer}\<rparr>
                else s);
          s2 = s1\<lparr>roomConsumers := (roomConsumers s1)(roomId := None)\<rparr>
      in leave_notice s2 e clientId name roomId)"

text \<open>The handler during whose pause nothing else runs.\<close>

definition handleLeaveRoom :: "server \<Rightarrow> io \<Rightarrow> clientId \<Rightarrow> roomId \<Rightarrow> server" where
  "handleLeaveRoom s e clientId roomId =
     (case leave_begin s e clientId roomId of
        (s1, None) \<Rightarrow> s1
      | (s1, Some (name, consumer)) \<Rightarrow> leave_resume s1 e clientId name roomId consumer)"

definition handleChatMessage :: "server \<Rightarrow> io \<Rightarrow> clientId \<Rightarrow> jwt_payload \<Rightarrow> roomId \<Rightarrow> string option \<Rightarrow> server" where
  "handleChatMessage s e clientId user roomId content =
     (if (case clients s clientId of
            None \<Rightarrow> True
          | Some client \<Rightarrow> roomId \<notin> set (c_rooms client))
      then sendToClient s clientId (ErrorFrame ''You are not in this room'')
      else case content of
             None \<Rightarrow> sendToClient s clientId (ErrorFrame ''Message cannot be empty'')
           | Some text \<Rightarrow>
               if text = [] \<or> js_trim text = [] then
                 sendToClient s clientId (ErrorFrame ''Message cannot be empty'')
               else
                 let message =
                       \<lparr>msg_type = ''message'', msg_roomId = roomId, msg_content = text,
                        msg_userId = Some (p_id user), msg_username = Some (p_name user),
                        msg_timestamp = io_now e, msg_id = io_uuid e\<rparr>
                 in if send_ok e then
                      let s1 = producer_send s (TOPIC_PREFIX @ roomId) message;
                          s2 = redis_lpush s1 roomId message
                      in redis_ltrim s2 roomId 0 (MAX_MESSAGES_PER_ROOM - 1)
                    else
                      sendToClient s clientId
                        (ErrorFrame ''Failed to send message, please try again''))"

text \<open>The connection handler: \<open>Some 4001\<close> is the close code of a refused connection.\<close>

definition on_connection :: "server \<Rightarrow> io \<Rightarrow> token option \<Rightarrow> server \<times> nat option" where
  "on_connection s e tok =
     (case wsAuthenticate s (io_now e) tok of
        None \<Rightarrow> (s, Some 4001)
      | Some user \<Rightarrow>
          let clientId = io_uuid e;
              s1 = s\<lparr>clients := (clients s)(clientId \<mapsto>
                       \<lparr>c_user = user, c_rooms = [], c_open = True, c_sent = []\<rparr>)\<rparr>
          in (sendToClient s1 clientId (SystemFrame (''Welcome, '' @ p_name user @ ''!'')),
              None))"

text \<open>The message handler of a connection: the dispatch and its catch block.\<close>

definition on_message :: "server \<Rightarrow> io \<Rightarrow> clientId \<Rightarrow> jwt_payload \<Rightarrow> client_frame \<Rightarrow> server" where
  "on_message s e clientId user parsedMessage =
     (case parsedMessage of
        JoinReq roomId \<Rightarrow>
          (case handleJoinRoom s e clientId user roomId of
             (s', Done) \<Rightarrow> s'
           | (s', Thrown) \<Rightarrow> sendToClient s' clientId (ErrorFrame ''Invalid message format''))
      | LeaveReq roomId \<Rightarrow> handleLeaveRoom s e clientId roomId
      | MessageReq roomId content \<Rightarrow> handleChatMessage s e clientId user roomId content
      | UnknownType \<Rightarrow> sendToClient s clientId (ErrorFrame ''Unknown message type'')
      | Unparseable \<Rightarrow> sendToClient s clientId (ErrorFrame ''Invalid message format''))"

text \<open>The close handler: leave every joined room, each with its own \<open>io\<close>, then forget
  the client. Each leave is the whole handler, with nothing else running during its
  pause.\<close>

fun leave_rooms :: "server \<Rightarrow> (roomId \<Rightarrow> io) \<Rightarrow> clientId \<Rightarrow> roomId list \<Rightarrow> server" where
  "leave_rooms s env clientId [] = s"
| "leave_rooms s env clientId (roomId # roomsToLeave) =
     leave_rooms (handleLeaveRoom s (env roomId) clientId roomId) env clientId roomsToLeave"

definition on_close :: "server \<Rightarrow> (roomId \<Rightarrow> io) \<Rightarrow> clientId \<Rightarrow> server" where
  "on_close s env clientId =
     (case clients s clientId of
        None \<Rightarrow> s
      | Some client \<Rightarrow>
          let s1 = leave_rooms s env clientId (c_rooms client)
          in s1\<lparr>clients := (clients s1)(clientId := None)\<rparr>)"

section \<open>Archival consumer\<close>

text \<open>\<open>eachMessage\<close> of the storage consumer; an error of \<open>Message.create\<close> is caught
  and logged.\<close>

definition storage_eachMessage :: "server \<Rightarrow> io \<Rightarrow> string \<Rightarrow> message \<Rightarrow> server" where
  "storage_eachMessage s e topic parsedMessage =
     (let roomId = drop (length TOPIC_PREFIX) topic;
          doc = \<lparr>msg_type = msg_type parsedMessage, msg_roomId = roomId,
                 msg_content = msg_content parsedMessage,
                 msg_userId = msg_userId parsedMessage,
                 msg_username = msg_username parsedMessage,
                 msg_timestamp = msg_timestamp parsedMessage,
                 msg_id = (if msg_id parsedMessage = [] then io_uuid e
                           else msg_id parsedMessage)\<rparr>
      in case Message_create s doc of None \<Rightarrow> s | Some s' \<Rightarrow> s')"

section \<open>Runs of the server\<close>

datatype event =
    Logout "token option"
  | CreateRoom "token option" string
  | WsConnect "token option"
  | WsMessage clientId client_frame
  | WsClose clientId "roomId \<Rightarrow> io"
  | StorageDeliver string message
  | RoomDeliver roomId message

definition step :: "server \<Rightarrow> io \<Rightarrow> event \<Rightarrow> server" where
  "step s e ev =
     (case ev of
        Logout authHeader \<Rightarrow> fst (logout s (io_now e) authHeader)
      | CreateRoom authHeader name \<Rightarrow> fst (post_api_rooms s (io_now e) authHeader name)
      | WsConnect tok \<Rightarrow> fst (on_connection s e tok)
      | WsMessage clientId parsedMessage \<Rightarrow>
          (case clients s clientId of
             None \<Rightarrow> s
           | Some client \<Rightarrow> on_message s e clientId (c_user client) parsedMessage)
      | WsClose clientId env \<Rightarrow> on_close s env clientId
      | StorageDeliver topic m \<Rightarrow> storage_eachMessage s e topic m
      | RoomDeliver roomId m \<Rightarrow> room_eachMessage s roomId m)"

fun run :: "server \<Rightarrow> (io \<times> event) list \<Rightarrow> server" where
  "run s [] = s"
| "run s ((e, ev) # evs) = run (step s e ev) evs"

definition empty_server :: server where
  "empty_server =
     \<lparr>clients = Map.empty, roomConsumers = Map.empty, rooms = {}, room_data = Map.empty,
      chat_history = (\<lambda>_. []), blacklist = Map.empty, archive = [],
      topics = (\<lambda>_. []), consumers_created = 0, consumers_connected = {}\<rparr>"

definition startup :: "int \<Rightarrow> server" where
  "startup now = initializeDefaultRooms empty_server now"

text \<open>
  An event can happen when the uuid of a new connection is not in use and when the
  message handed to a consumer is in the log of its topic.
\<close>

definition admissible :: "server \<Rightarrow> io \<Rightarrow> event \<Rightarrow> bool" where
  "admissible s e ev =
     (case ev of
        WsConnect tok \<Rightarrow> clients s (io_uuid e) = None
      | StorageDeliver topic m \<Rightarrow> m \<in> set (topics s topic)
      | RoomDeliver roomId m \<Rightarrow> m \<in> set (topics s (TOPIC_PREFIX @ roomId))
      | _ \<Rightarrow> True)"

text \<open>\<open>reach t s\<close>: the server is in state \<open>s\<close> after a run whose clock readings never
  went backwards and whose last reading was \<open>t\<close>. In a run each event is handled to
  its end before the next one is taken.\<close>

inductive reach :: "int \<Rightarrow> server \<Rightarrow> bool" where
  reach_startup: "reach t (startup t)"
| reach_step: "reach t s \<Longrightarrow> t \<le> io_now e \<Longrightarrow> admissible s e ev \<Longrightarrow> reach (io_now e) (step s e ev)"

section \<open>Auxiliary notions for the proofs\<close>

text \<open>A token is revoked in a state when the store holds an entry for it that lasts at
  least until the token itself expires.\<close>

definition revoked :: "server \<Rightarrow> token \<Rightarrow> bool" where
  "revoked s tok =
     (case tok of
        Malformed _ \<Rightarrow> False
      | Jwt k p \<Rightarrow> (case blacklist s tok of None \<Rightarrow> False | Some expires \<Rightarrow> p_exp p * 1000 \<le> expires))"

text \<open>The token that \<open>login\<close> issues to user1 at time 0.\<close>

definition alice_token :: token where
  "alice_token = jwt_sign ''user1'' ''Alice'' SECRET 0"

definition alice :: jwt_payload where
  "alice = \<lparr>p_id = ''user1'', p_name = ''Alice'', p_iat = 0, p_exp = 3600\<rparr>"

text \<open>The content of a \<open>message\<close> frame is blank when it is absent, not a string, empty or
  made of whitespace only.\<close>

definition blank :: "string option \<Rightarrow> bool" where
  "blank content =
     (case content of None \<Rightarrow> True | Some body \<Rightarrow> \<forall>c\<in>set body. js_whitespace c)"

text \<open>The message object that \<open>handleChatMessage\<close> builds.\<close>

definition chat_message :: "jwt_payload \<Rightarrow> roomId \<Rightarrow> string \<Rightarrow> io \<Rightarrow> message" where
  "chat_message user roomId body e =
     \<lparr>msg_type = ''message'', msg_roomId = roomId, msg_content = body,
      msg_userId = Some (p_id user), msg_username = Some (p_name user),
      msg_timestamp = io_now e, msg_id = io_uuid e\<rparr>"

text \<open>The document that the storage consumer builds from a bus message: the room comes
  from the topic name, and a missing id is replaced by a new uuid.\<close>

definition archived_doc :: "io \<Rightarrow> string \<Rightarrow> message \<Rightarrow> message" where
  "archived_doc e topic m =
     m\<lparr>msg_roomId := drop (length TOPIC_PREFIX) topic,
       msg_id := (if msg_id m = [] then io_uuid e else msg_id m)\<rparr>"

text \<open>How many documents carry a given message id.\<close>

definition count_id :: "string \<Rightarrow> message list \<Rightarrow> nat" where
  "count_id i docs = length (filter (\<lambda>d. msg_id d = i) docs)"

text \<open>A run is admissible from time \<open>t\<close> and state \<open>s\<close> when each of its events is
  admissible where it happens and the clock readings never decrease.\<close>

fun admissible_run :: "int \<Rightarrow> server \<Rightarrow> (io \<times> event) list \<Rightarrow> bool" where
  "admissible_run t s [] = True"
| "admissible_run t s ((e, ev) # evs) =
     (t \<le> io_now e \<and> admissible s e ev \<and> admissible_run (io_now e) (step s e ev) evs)"

fun end_time :: "int \<Rightarrow> (io \<times> event) list \<Rightarrow> int" where
  "end_time t [] = t"
| "end_time t ((e, ev) # evs) = end_time (io_now e) evs"

text \<open>The invariant of the recent lists at time \<open>t\<close>: bounded, newest first, and made of
  chat messages stamped no later than \<open>t\<close>.\<close>

definition newest_first :: "message list \<Rightarrow> bool" where
  "newest_first ms = sorted_wrt (\<lambda>a b. msg_timestamp b \<le> msg_timestamp a) ms"

definition cache_inv :: "int \<Rightarrow> server \<Rightarrow> bool" where
  "cache_inv t s =
     (\<forall>r. int (length (chat_history s r)) \<le> MAX_MESSAGES_PER_ROOM
        \<and> newest_first (chat_history s r)
        \<and> (\<forall>m\<in>set (chat_history s r). msg_timestamp m \<le> t \<and> msg_type m = ''message''))"

text \<open>The rooms a client has joined (none for an unknown client), and the subscriber set
  that the registry holds for a room (empty when the room has no entry).\<close>

definition joined :: "server \<Rightarrow> clientId \<Rightarrow> roomId list" where
  "joined s c = (case clients s c of None \<Rightarrow> [] | Some client \<Rightarrow> c_rooms client)"

definition subscriber_set :: "server \<Rightarrow> roomId \<Rightarrow> clientId set" where
  "subscriber_set s r =
     (case roomConsumers s r of None \<Rightarrow> {} | Some d \<Rightarrow> set (rc_subscribers d))"

text \<open>
  The invariant of the room hub, on the registry \<open>rc\<close>, the joined rooms \<open>jn\<close>, the
  number \<open>n\<close> of consumers created and the set \<open>cn\<close> of connected consumers: every entry
  has a non-empty subscriber set and a connected consumer with a handle below \<open>n\<close>; a
  client has joined a room exactly when the room's entry lists it; two rooms never share
  a consumer.
\<close>

definition hub_ok :: "(roomId \<rightharpoonup> room_consumer) \<Rightarrow> (clientId \<Rightarrow> roomId list) \<Rightarrow> nat \<Rightarrow> nat set \<Rightarrow> bool" where
  "hub_ok rc jn n cn =
     ((\<forall>r d. rc r = Some d \<longrightarrow>
          rc_subscribers d \<noteq> [] \<and> rc_consumer d \<in> cn \<and> rc_consumer d < n)
    \<and> (\<forall>r c. r \<in> set (jn c) \<longleftrightarrow> (\<exists>d. rc r = Some d \<and> c \<in> set (rc_subscribers d)))
    \<and> (\<forall>r r' d d'. rc r = Some d \<and> rc r' = Some d' \<and> rc_consumer d = rc_consumer d'
          \<longrightarrow> r = r'))"

definition hub_inv :: "server \<Rightarrow> bool" where
  "hub_inv s =
     hub_ok (roomConsumers s) (joined s) (consumers_created s) (consumers_connected s)"

text \<open>The three broker calls that create a room consumer all succeed.\<close>

definition broker_ok :: "io \<Rightarrow> bool" where
  "broker_ok e = (connect_ok e \<and> subscribe_ok e \<and> run_ok e)"

text \<open>The state in which a join that got its consumer entry continues.\<close>

definition subscribed :: "server \<Rightarrow> clientId \<Rightarrow> client \<Rightarrow> roomId \<Rightarrow> room_consumer \<Rightarrow> server" where
  "subscribed s1 c client r d =
     s1\<lparr>roomConsumers := (roomConsumers s1)(r \<mapsto>
            d\<lparr>rc_subscribers := set_add c (rc_subscribers d)\<rparr>),
        clients := (clients s1)(c \<mapsto> client\<lparr>c_rooms := set_add r (c_rooms client)\<rparr>)\<rparr>"

text \<open>The messages of a history answer, none when the room is unknown.\<close>

definition page_of :: "server \<Rightarrow> roomId \<Rightarrow> query \<Rightarrow> page_message list" where
  "page_of s r q = (case getMessages s r q of Inl _ \<Rightarrow> [] | Inr resp \<Rightarrow> hr_messages resp)"

text \<open>A page is ordered by timestamp, newest first, with the message id deciding between
  equal timestamps according to the order \<open>le\<close> on ids.\<close>

definition by_time_then_id :: "(string \<Rightarrow> string \<Rightarrow> bool) \<Rightarrow> page_message list \<Rightarrow> bool" where
  "by_time_then_id le ps =
     sorted_wrt (\<lambda>a b. pm_timestamp b < pm_timestamp a
                     \<or> (pm_timestamp a = pm_timestamp b
                         \<and> le (msg_id (pm_message a)) (msg_id (pm_message b)))) ps"

subsection \<open>A concrete run\<close>

text \<open>An operation at time \<open>t\<close> with uuid \<open>u\<close> during which the broker works.\<close>

definition ok_io :: "int \<Rightarrow> string \<Rightarrow> io" where
  "ok_io t u = \<lparr>io_now = t, io_uuid = u, connect_ok = True, subscribe_ok = True,
                run_ok = True, disconnect_ok = True, send_ok = True\<rparr>"

definition join_notice :: "int \<Rightarrow> string \<Rightarrow> message" where
  "join_notice t u = system_notice ''general'' ''Alice has joined the room'' (ok_io t u)"

definition hi_message :: "int \<Rightarrow> string \<Rightarrow> message" where
  "hi_message t u = chat_message alice ''general'' ''hi'' (ok_io t u)"

text \<open>
  User1 connects and joins \<open>general\<close>; the join notice reaches the storage consumer twice;
  user1 sends \<open>hi\<close>, which is archived; a second connection of user1 joins, its notice is
  archived; user1 sends \<open>hi\<close> again.
\<close>

definition scenario :: "(io \<times> event) list" where
  "scenario =
     [(ok_io 1000 ''c1'', WsConnect (Some alice_token)),
      (ok_io 5000 ''j1'', WsMessage ''c1'' (JoinReq ''general'')),
      (ok_io 6000 ''d1'', StorageDeliver ''chat_room_general'' (join_notice 5000 ''j1'')),
      (ok_io 7000 ''d2'', StorageDeliver ''chat_room_general'' (join_notice 5000 ''j1'')),
      (ok_io 10000 ''m1'', WsMessage ''c1'' (MessageReq ''general'' (Some ''hi''))),
      (ok_io 11000 ''d3'', StorageDeliver ''chat_room_general'' (hi_message 10000 ''m1'')),
      (ok_io 12000 ''c2'', WsConnect (Some alice_token)),
      (ok_io 15000 ''j2'', WsMessage ''c2'' (JoinReq ''general'')),
      (ok_io 16000 ''d4'', StorageDeliver ''chat_room_general'' (join_notice 15000 ''j2'')),
      (ok_io 20000 ''m2'', WsMessage ''c1'' (MessageReq ''general'' (Some ''hi'')))]"

text \<open>The state after the first two events, and the client \<open>c1\<close> in it.\<close>

definition joined_state :: server where
  "joined_state = run (startup 0) (take 2 scenario)"

definition joined_client :: client where
  "joined_client =
     \<lparr>c_user = alice, c_rooms = [''general''], c_open = True,
      c_sent = [SystemFrame ''Welcome, Alice!'', HistoryFrame ''general'' [] ''recent'']\<rparr>"

text \<open>The state after the join notice has been archived once, and the final state.\<close>

definition archived_once :: server where
  "archived_once = run (startup 0) (take 3 scenario)"

definition final_state :: server where
  "final_state = run (startup 0) scenario"

definition default_query :: query where
  "default_query = \<lparr>q_limit = None, q_before = None, q_after = None, q_source = None\<rparr>"

text \<open>Two sends of \<open>c1\<close> to \<open>general\<close> in the same millisecond, with uuids \<open>u\<close> then
  \<open>v\<close>, after \<open>c1\<close> has joined.\<close>

definition same_instant_run :: "string \<Rightarrow> string \<Rightarrow> (io \<times> event) list" where
  "same_instant_run u v =
     take 2 scenario
     @ [(ok_io 10000 u, WsMessage ''c1'' (MessageReq ''general'' (Some ''hi''))),
        (ok_io 10000 v, WsMessage ''c1'' (MessageReq ''general'' (Some ''hi'')))]"

definition same_instant :: "string \<Rightarrow> string \<Rightarrow> server" where
  "same_instant u v = run (startup 0) (same_instant_run u v)"

text \<open>
  A join during the pause of a leave. \<open>c1\<close> has joined \<open>general\<close> and a second connection
  \<open>c2\<close> is open; the leave of \<open>c1\<close> runs up to its pause; the join of \<open>c2\<close> is handled; the
  leave of \<open>c1\<close> goes on.
\<close>

definition two_clients :: server where
  "two_clients =
     run (startup 0) (take 2 scenario @ [(ok_io 12000 ''c2'', WsConnect (Some alice_token))])"

definition leave_paused :: server where
  "leave_paused = fst (leave_begin two_clients (ok_io 13000 ''l1'') ''c1'' ''general'')"

definition joined_meanwhile :: server where
  "joined_meanwhile =
     step leave_paused (ok_io 14000 ''j2'') (WsMessage ''c2'' (JoinReq ''general''))"

definition raced :: server where
  "raced = leave_resume joined_meanwhile (ok_io 15000 ''l1'') ''c1'' ''Alice'' ''general'' 0"

text \<open>
  A join during the pause of a join. \<open>c1\<close> and \<open>c2\<close> are connected and \<open>general\<close> has no
  entry; the join of \<open>c1\<close> runs up to its pause in \<open>getOrCreateRoomConsumer\<close>, then the
  join of \<open>c2\<close> does; the join of \<open>c1\<close> goes on to its end, then the join of \<open>c2\<close>.
\<close>

definition both_connected :: server where
  "both_connected =
     run (startup 0) [(ok_io 1000 ''c1'', WsConnect (Some alice_token)),
                      (ok_io 2000 ''c2'', WsConnect (Some alice_token))]"

definition first_waits :: server where
  "first_waits = fst (consumer_begin both_connected ''general'')"

definition second_waits :: server where
  "second_waits = fst (consumer_begin first_waits ''general'')"

definition first_registered :: server where
  "first_registered = fst (consumer_resume second_waits (ok_io 3000 ''j1'') ''general'' 0)"

definition first_joined :: server where
  "first_joined =
     fst (join_finish first_registered (ok_io 3000 ''j1'') ''c1'' alice ''general''
            \<lparr>rc_consumer = 0, rc_subscribers = []\<rparr>)"

definition second_registered :: server where
  "second_registered = fst (consumer_resume first_joined (ok_io 4000 ''j2'') ''general'' 1)"

definition second_joined :: server where
  "second_joined =
     fst (join_finish second_registered (ok_io 4000 ''j2'') ''c2'' alice ''general''
            \<lparr>rc_consumer = 1, rc_subscribers = []\<rparr>)"

section \<open>What each operation leaves alone\<close>

text \<open>
  The three handlers that are defined from their parts, written out as one expression
  each: what they do when nothing else runs during their pauses.
\<close>

lemma getOrCreateRoomConsumer_unfold:
  "getOrCreateRoomConsumer s e roomId =
     (case roomConsumers s roomId of
        Some d \<Rightarrow> (s, Some d)
      | None \<Rightarrow>
          let h = consumers_created s;
              s1 = s\<lparr>consumers_created := Suc h\<rparr>
          in if \<not> connect_ok e then (s1, None)
             else let s2 = s1\<lparr>consumers_connected := insert h (consumers_connected s1)\<rparr>
                  in if \<not> subscribe_ok e then (s2, None)
                     else if \<not> run_ok e then (s2, None)
                     else let d = \<lparr>rc_consumer = h, rc_subscribers = []\<rparr>
                          in (s2\<lparr>roomConsumers := (roomConsumers s2)(roomId \<mapsto> d)\<rparr>, Some d))"
  by (simp add: getOrCreateRoomConsumer_def consumer_begin_def consumer_resume_def Let_def
           split: option.splits)

lemma getOrCreate_clients:
  "getOrCreateRoomConsumer s e roomId = (s1, x) \<Longrightarrow> clients s1 = clients s"
  by (auto simp: getOrCreateRoomConsumer_unfold Let_def split: option.splits if_splits)

lemma handleJoinRoom_unfold:
  "handleJoinRoom s e clientId user roomId =
     (case clients s clientId of
        None \<Rightarrow> (s, Done)
      | Some client \<Rightarrow>
          if roomId \<notin> rooms s then
            (sendToClient s clientId (ErrorFrame ''Room not found''), Done)
          else if roomId \<in> set (c_rooms client) then
            (sendToClient s clientId (ErrorFrame ''You are already in this room''), Done)
          else
            (case getOrCreateRoomConsumer s e roomId of
               (s1, None) \<Rightarrow> (s1, Thrown)
             | (s1, Some d) \<Rightarrow>
                 let s2 = s1\<lparr>roomConsumers := (roomConsumers s1)(roomId \<mapsto>
                              d\<lparr>rc_subscribers := set_add clientId (rc_subscribers d)\<rparr>)\<rparr>;
                     s3 = s2\<lparr>clients := (clients s2)(clientId \<mapsto>
                              client\<lparr>c_rooms := set_add roomId (c_rooms client)\<rparr>)\<rparr>;
                     s4 = sendRoomHistory s3 clientId roomId;
                     joinMessage =
                       system_notice roomId (p_name user @ '' has joined the room'') e
                 in if send_ok e
                    then (producer_send s4 (TOPIC_PREFIX @ roomId) joinMessage, Done)
                    else (s4, Thrown)))"
  by (auto simp: handleJoinRoom_def join_finish_def Let_def dest: getOrCreate_clients
           split: option.splits prod.splits)

lemma handleLeaveRoom_unfold:
  "handleLeaveRoom s e clientId roomId =
     (case clients s clientId of
        None \<Rightarrow> s
      | Some client \<Rightarrow>
          if roomId \<notin> set (c_rooms client) then s
          else
            let s1 = s\<lparr>clients := (clients s)(clientId \<mapsto>
                         client\<lparr>c_rooms := set_delete roomId (c_rooms client)\<rparr>)\<rparr>;
                s2 = (case roomConsumers s1 roomId of
                        None \<Rightarrow> s1
                      | Some d \<Rightarrow>
                          let subs = set_delete clientId (rc_subscribers d)
                          in if length subs = 0 then
                               let s' = (if disconnect_ok e
                                         then s1\<lparr>consumers_connected :=
                                                  consumers_connected s1 - {rc_consumer d}\<rparr>
                                         else s1)
                               in s'\<lparr>roomConsumers := (roomConsumers s')(roomId := None)\<rparr>
                             else s1\<lparr>roomConsumers := (roomConsumers s1)(roomId \<mapsto>
                                       d\<lparr>rc_subscribers := subs\<rparr>)\<rparr>);
                leaveMessage =
                  system_notice roomId (p_name (c_user client) @ '' has left the room'') e
            in if send_ok e then producer_send s2 (TOPIC_PREFIX @ roomId) leaveMessage
               else s2)"
  by (auto simp: handleLeaveRoom_def leave_begin_def leave_resume_def leave_notice_def Let_def
                 set_delete_def
           split: option.splits)


lemma sendToClient_frame [simp]:
  "blacklist (sendToClient s c f) = blacklist s"
  "chat_history (sendToClient s c f) = chat_history s"
  "rooms (sendToClient s c f) = rooms s"
  "room_data (sendToClient s c f) = room_data s"
  "archive (sendToClient s c f) = archive s"
  "topics (sendToClient s c f) = topics s"
  "roomConsumers (sendToClient s c f) = roomConsumers s"
  "consumers_created (sendToClient s c f) = consumers_created s"
  "consumers_connected (sendToClient s c f) = consumers_connected s"
  by (simp_all add: sendToClient_def split: option.splits)

lemma producer_send_frame [simp]:
  "blacklist (producer_send s t m) = blacklist s"
  "chat_history (producer_send s t m) = chat_history s"
  "rooms (producer_send s t m) = rooms s"
  "room_data (producer_send s t m) = room_data s"
  "archive (producer_send s t m) = archive s"
  "clients (producer_send s t m) = clients s"
  "roomConsumers (producer_send s t m) = roomConsumers s"
  "consumers_created (producer_send s t m) = consumers_created s"
  "consumers_connected (producer_send s t m) = consumers_connected s"
  by (simp_all add: producer_send_def)

lemma getOrCreate_frame:
  assumes "getOrCreateRoomConsumer s e r = (s', d)"
  shows "blacklist s' = blacklist s" "chat_history s' = chat_history s" "rooms s' = rooms s"
    "room_data s' = room_data s" "archive s' = archive s" "topics s' = topics s"
    "clients s' = clients s"
  using assms
  by (auto simp: getOrCreateRoomConsumer_unfold Let_def split: option.splits if_splits)

lemma sendRoomHistory_frame [simp]:
  "blacklist (sendRoomHistory s c r) = blacklist s"
  "chat_history (sendRoomHistory s c r) = chat_history s"
  "rooms (sendRoomHistory s c r) = rooms s"
  "room_data (sendRoomHistory s c r) = room_data s"
  "archive (sendRoomHistory s c r) = archive s"
  "topics (sendRoomHistory s c r) = topics s"
  "roomConsumers (sendRoomHistory s c r) = roomConsumers s"
  "consumers_created (sendRoomHistory s c r) = consumers_created s"
  "consumers_connected (sendRoomHistory s c r) = consumers_connected s"
  by (simp_all add: sendRoomHistory_def Let_def)

lemma handleJoinRoom_frame:
  assumes "handleJoinRoom s e c u r = (s', k)"
  shows "blacklist s' = blacklist s" "chat_history s' = chat_history s" "rooms s' = rooms s"
    "room_data s' = room_data s" "archive s' = archive s"
  using assms
  by (auto simp: handleJoinRoom_unfold Let_def split: option.splits prod.splits if_splits
      dest: getOrCreate_frame)

lemma handleLeaveRoom_frame [simp]:
  "blacklist (handleLeaveRoom s e c r) = blacklist s"
  "chat_history (handleLeaveRoom s e c r) = chat_history s"
  "rooms (handleLeaveRoom s e c r) = rooms s"
  "room_data (handleLeaveRoom s e c r) = room_data s"
  "archive (handleLeaveRoom s e c r) = archive s"
  by (simp_all add: handleLeaveRoom_unfold Let_def split: option.splits)

lemma handleChatMessage_frame [simp]:
  "blacklist (handleChatMessage s e c u r x) = blacklist s"
  "rooms (handleChatMessage s e c u r x) = rooms s"
  "room_data (handleChatMessage s e c u r x) = room_data s"
  "archive (handleChatMessage s e c u r x) = archive s"
  "roomConsumers (handleChatMessage s e c u r x) = roomConsumers s"
  by (simp_all add: handleChatMessage_def Let_def redis_lpush_def redis_ltrim_def split: option.splits)

lemma leave_rooms_frame [simp]:
  "blacklist (leave_rooms s env c rs) = blacklist s"
  "chat_history (leave_rooms s env c rs) = chat_history s"
  "rooms (leave_rooms s env c rs) = rooms s"
  "room_data (leave_rooms s env c rs) = room_data s"
  "archive (leave_rooms s env c rs) = archive s"
  by (induction rs arbitrary: s) simp_all

lemma on_close_frame [simp]:
  "blacklist (on_close s env c) = blacklist s"
  "chat_history (on_close s env c) = chat_history s"
  "rooms (on_close s env c) = rooms s"
  "room_data (on_close s env c) = room_data s"
  "archive (on_close s env c) = archive s"
  by (simp_all add: on_close_def Let_def split: option.splits)

lemma on_message_frame [simp]:
  "blacklist (on_message s e c u f) = blacklist s"
  "rooms (on_message s e c u f) = rooms s"
  "room_data (on_message s e c u f) = room_data s"
  "archive (on_message s e c u f) = archive s"
  by (cases f; auto simp: on_message_def split: prod.splits completion.splits
      dest: handleJoinRoom_frame)+

lemma on_connection_frame [simp]:
  "blacklist (fst (on_connection s e t)) = blacklist s"
  "chat_history (fst (on_connection s e t)) = chat_history s"
  "rooms (fst (on_connection s e t)) = rooms s"
  "room_data (fst (on_connection s e t)) = room_data s"
  "archive (fst (on_connection s e t)) = archive s"
  "roomConsumers (fst (on_connection s e t)) = roomConsumers s"
  by (simp_all add: on_connection_def Let_def split: option.splits)

lemma post_api_rooms_frame [simp]:
  "blacklist (fst (post_api_rooms s n h nm)) = blacklist s"
  "chat_history (fst (post_api_rooms s n h nm)) = chat_history s"
  "archive (fst (post_api_rooms s n h nm)) = archive s"
  "clients (fst (post_api_rooms s n h nm)) = clients s"
  "roomConsumers (fst (post_api_rooms s n h nm)) = roomConsumers s"
  by (simp_all add: post_api_rooms_def createRoom_def Let_def split: sum.splits)

lemma storage_eachMessage_frame [simp]:
  "blacklist (storage_eachMessage s e t m) = blacklist s"
  "chat_history (storage_eachMessage s e t m) = chat_history s"
  "rooms (storage_eachMessage s e t m) = rooms s"
  "room_data (storage_eachMessage s e t m) = room_data s"
  "clients (storage_eachMessage s e t m) = clients s"
  "roomConsumers (storage_eachMessage s e t m) = roomConsumers s"
  by (auto simp: storage_eachMessage_def Message_create_def Let_def split: option.splits)

lemma logout_frame [simp]:
  "chat_history (fst (logout s n h)) = chat_history s"
  "rooms (fst (logout s n h)) = rooms s"
  "room_data (fst (logout s n h)) = room_data s"
  "archive (fst (logout s n h)) = archive s"
  "clients (fst (logout s n h)) = clients s"
  "roomConsumers (fst (logout s n h)) = roomConsumers s"
  by (auto simp: logout_def redis_set_blacklist_def Let_def split: option.splits)

lemma fold_sendToClient_frame [simp]:
  "blacklist (fold (\<lambda>c s'. sendToClient s' c f) cs s) = blacklist s"
  "chat_history (fold (\<lambda>c s'. sendToClient s' c f) cs s) = chat_history s"
  "rooms (fold (\<lambda>c s'. sendToClient s' c f) cs s) = rooms s"
  "room_data (fold (\<lambda>c s'. sendToClient s' c f) cs s) = room_data s"
  "archive (fold (\<lambda>c s'. sendToClient s' c f) cs s) = archive s"
  "topics (fold (\<lambda>c s'. sendToClient s' c f) cs s) = topics s"
  "roomConsumers (fold (\<lambda>c s'. sendToClient s' c f) cs s) = roomConsumers s"
  "consumers_created (fold (\<lambda>c s'. sendToClient s' c f) cs s) = consumers_created s"
  "consumers_connected (fold (\<lambda>c s'. sendToClient s' c f) cs s) = consumers_connected s"
  by (induction cs arbitrary: s; simp)+

lemma room_eachMessage_frame [simp]:
  "blacklist (room_eachMessage s r m) = blacklist s"
  "chat_history (room_eachMessage s r m) = chat_history s"
  "rooms (room_eachMessage s r m) = rooms s"
  "room_data (room_eachMessage s r m) = room_data s"
  "archive (room_eachMessage s r m) = archive s"
  "topics (room_eachMessage s r m) = topics s"
  "roomConsumers (room_eachMessage s r m) = roomConsumers s"
  "consumers_created (room_eachMessage s r m) = consumers_created s"
  "consumers_connected (room_eachMessage s r m) = consumers_connected s"
  by (simp_all add: room_eachMessage_def split: option.splits)

section \<open>Admissible runs are reachable\<close>

lemma reach_run:
  assumes "reach t s" "admissible_run t s evs"
  shows "reach (end_time t evs) (run s evs)"
  using assms
proof (induction evs arbitrary: t s)
  case Nil
  then show ?case by simp
next
  case (Cons a evs)
  obtain e ev where a: "a = (e, ev)" by (cases a)
  from Cons.prems(2) have le: "t \<le> io_now e" and ad: "admissible s e ev"
    and rest: "admissible_run (io_now e) (step s e ev) evs"
    by (simp_all add: a)
  from Cons.prems(1) le ad have "reach (io_now e) (step s e ev)" by (rule reach_step)
  then have "reach (end_time (io_now e) evs) (run (step s e ev) evs)" using rest by (rule Cons.IH)
  then show ?case by (simp add: a)
qed

lemma scenario_admissible: "admissible_run 0 (startup 0) scenario"
  by code_simp

lemma reach_final: "reach 20000 final_state"
proof -
  have "end_time 0 scenario = 20000" by code_simp
  with reach_run [OF reach_startup scenario_admissible] show ?thesis
    by (simp add: final_state_def)
qed

lemma final_c1: "clients final_state ''c1'' = Some joined_client"
  by code_simp

lemma reach_joined: "reach 5000 joined_state"
proof -
  have a: "admissible_run 0 (startup 0) (take 2 scenario)" by code_simp
  have "end_time 0 (take 2 scenario) = 5000" by code_simp
  with reach_run [OF reach_startup a] show ?thesis by (simp add: joined_state_def)
qed

section \<open>Token revocation\<close>

lemma login_alice: "login ''user1'' ''pass1'' 0 = Inr (alice_token, ''user1'', ''Alice'')"
  by (simp add: login_def users_def alice_token_def)

lemma alice_token_payload: "alice_token = Jwt SECRET alice"
  by (simp add: alice_token_def jwt_sign_def alice_def)

lemma jwt_verify_Some:
  "jwt_verify tok key now = Some p \<longleftrightarrow> tok = Jwt key p \<and> now div 1000 < p_exp p"
  by (auto simp: jwt_verify_def split: token.splits)

lemma ttl_covers_expiry: "e * 1000 \<le> now + (e - now div 1000) * (1000::int)"
  by presburger

lemma logout_ok:
  assumes "jwt_verify tok SECRET now = Some p"
  shows "logout s now (Some tok) =
           (s\<lparr>blacklist := (blacklist s)(tok \<mapsto> now + (p_exp p - now div 1000) * 1000)\<rparr>,
            200, ''Logged out and token blacklisted'')"
proof -
  from assms have "0 < p_exp p - now div 1000" by (simp add: jwt_verify_Some)
  then show ?thesis using assms
    by (simp add: logout_def redis_set_blacklist_def Let_def)
qed

lemma logout_status_200:
  assumes "fst (snd (logout s now (Some tok))) = 200"
  shows "\<exists>p. jwt_verify tok SECRET now = Some p"
  using assms
  by (cases "jwt_verify tok SECRET now") (simp_all add: logout_def)

lemma revoked_Jwt:
  "revoked s (Jwt k p) \<longleftrightarrow> (\<exists>x. blacklist s (Jwt k p) = Some x \<and> p_exp p * 1000 \<le> x)"
  by (simp add: revoked_def split: option.splits)

lemma revoked_Malformed [simp]: "\<not> revoked s (Malformed x)"
  by (simp add: revoked_def)

lemma revoked_cong: "blacklist s' = blacklist s \<Longrightarrow> revoked s' tok = revoked s tok"
  by (cases tok) (simp_all add: revoked_def)

lemma revoked_logout:
  assumes "fst (snd (logout s now (Some tok))) = 200"
  shows "revoked (fst (logout s now (Some tok))) tok"
proof -
  from logout_status_200 [OF assms] obtain p where p: "jwt_verify tok SECRET now = Some p" ..
  then have tok: "tok = Jwt SECRET p" by (simp add: jwt_verify_Some)
  have "blacklist (fst (logout s now (Some tok))) tok
          = Some (now + (p_exp p - now div 1000) * 1000)"
    by (simp add: logout_ok [OF p])
  then show ?thesis
    unfolding tok revoked_Jwt using ttl_covers_expiry by blast
qed

lemma revoked_logout_other:
  assumes "revoked s tok"
  shows "revoked (fst (logout s now h)) tok"
proof (cases h)
  case None
  then show ?thesis using assms by (simp add: logout_def)
next
  case (Some tok')
  show ?thesis
  proof (cases "jwt_verify tok' SECRET now")
    case None
    then show ?thesis using assms Some by (simp add: logout_def)
  next
    case (Some p)
    then have tok': "tok' = Jwt SECRET p" by (simp add: jwt_verify_Some)
    show ?thesis
    proof (cases "tok = tok'")
      case True
      have "blacklist (fst (logout s now h)) tok
              = Some (now + (p_exp p - now div 1000) * 1000)"
        unfolding \<open>h = Some tok'\<close> by (simp add: logout_ok [OF Some] True)
      then show ?thesis
        unfolding True tok' revoked_Jwt using ttl_covers_expiry by blast
    next
      case False
      then have "blacklist (fst (logout s now h)) tok = blacklist s tok"
        unfolding \<open>h = Some tok'\<close> by (simp add: logout_ok [OF Some])
      then show ?thesis using assms by (cases tok) (simp_all add: revoked_def)
    qed
  qed
qed

lemma div_bound:
  assumes "now div 1000 < (e::int)"
  shows "now < e * 1000"
proof -
  define q r where "q = now div 1000" and "r = now mod 1000"
  have "now = q * 1000 + r" by (simp add: q_def r_def)
  moreover have "r < 1000" by (simp add: r_def)
  moreover from assms have "q + 1 \<le> e" by (simp add: q_def)
  ultimately show ?thesis by linarith
qed

lemma revoked_unexpired:
  assumes "revoked s (Jwt k p)" "now div 1000 < p_exp p"
  shows "redis_get_blacklist s now (Jwt k p)"
proof -
  from assms(1) obtain x where x: "blacklist s (Jwt k p) = Some x" "p_exp p * 1000 \<le> x"
    unfolding revoked_Jwt by blast
  from assms(2) have "now < p_exp p * 1000" by (rule div_bound)
  with x show ?thesis by (simp add: redis_get_blacklist_def)
qed

lemma jwt_verify_expired:
  assumes "p_exp p \<le> now div 1000"
  shows "jwt_verify (Jwt k p) key now = None"
  using assms by (simp add: jwt_verify_def)

lemma step_blacklist:
  assumes "\<forall>h. ev \<noteq> Logout h"
  shows "blacklist (step s e ev) = blacklist s"
  using assms by (cases ev) (simp_all add: step_def split: option.splits)

lemma revoked_step:
  assumes "revoked s tok"
  shows "revoked (step s e ev) tok"
proof (cases "\<exists>h. ev = Logout h")
  case True
  then obtain h where "ev = Logout h" ..
  then show ?thesis using revoked_logout_other [OF assms] by (simp add: step_def)
next
  case False
  then have "blacklist (step s e ev) = blacklist s" by (simp add: step_blacklist)
  then have "revoked (step s e ev) tok = revoked s tok" by (rule revoked_cong)
  with assms show ?thesis by simp
qed

lemma revoked_run:
  "revoked s tok \<Longrightarrow> revoked (run s evs) tok"
proof (induction evs arbitrary: s)
  case Nil
  then show ?case by simp
next
  case (Cons a evs)
  obtain e ev where a: "a = (e, ev)" by (cases a)
  from Cons.prems have "revoked (step s e ev) tok" by (rule revoked_step)
  then have "revoked (run (step s e ev) evs) tok" by (rule Cons.IH)
  then show ?case by (simp add: a)
qed

text \<open>
  Claim C5. Take a token whose logout succeeded, and any run of the server after that.
  While the token is unexpired its signature still verifies, yet the \<open>authenticate\<close>
  middleware, and with it the routes behind it, answers 401 and the connection handler
  closes the socket with code 4001.
  Once the token has expired, both still refuse it in the state from which its blacklist
  entry has been deleted.
\<close>

theorem revoked_token_rejected:
  assumes "fst (snd (logout s0 t0 (Some tok))) = 200"
    and "s = run (fst (logout s0 t0 (Some tok))) evs"
    and "tok = Jwt k p"
    and "io_now e = now"
  shows "(now div 1000 < p_exp p \<longrightarrow>
            jwt_verify tok SECRET now = Some p
          \<and> authenticate s now (Some tok) = Inl (HttpError 401 ''Token is blacklisted'')
          \<and> post_api_rooms s now (Some tok) name
              = (s, Inl (HttpError 401 ''Token is blacklisted''))
          \<and> get_api_messages s now (Some tok) r q = Inl (HttpError 401 ''Token is blacklisted'')
          \<and> on_connection s e (Some tok) = (s, Some 4001))
       \<and> (p_exp p \<le> now div 1000 \<longrightarrow>
            (let s' = s\<lparr>blacklist := (blacklist s)(tok := None)\<rparr>
             in authenticate s' now (Some tok) = Inl (HttpError 401 ''Invalid token'')
              \<and> get_api_messages s' now (Some tok) r q = Inl (HttpError 401 ''Invalid token'')
              \<and> on_connection s' e (Some tok) = (s', Some 4001)))"
proof -
  from logout_status_200 [OF assms(1)] obtain p' where "jwt_verify tok SECRET t0 = Some p'" ..
  with assms(3) have k: "k = SECRET" by (simp add: jwt_verify_Some)
  have "revoked (fst (logout s0 t0 (Some tok))) tok" using assms(1) by (rule revoked_logout)
  then have rev: "revoked s (Jwt k p)" unfolding assms(2) assms(3) by (rule revoked_run)
  have live: "now div 1000 < p_exp p \<Longrightarrow> redis_get_blacklist s now (Jwt k p)"
    using rev by (rule revoked_unexpired)
  have a: "now div 1000 < p_exp p \<longrightarrow>
            jwt_verify tok SECRET now = Some p
          \<and> authenticate s now (Some tok) = Inl (HttpError 401 ''Token is blacklisted'')
          \<and> post_api_rooms s now (Some tok) name
              = (s, Inl (HttpError 401 ''Token is blacklisted''))
          \<and> get_api_messages s now (Some tok) r q = Inl (HttpError 401 ''Token is blacklisted'')
          \<and> on_connection s e (Some tok) = (s, Some 4001)"
    using live
    by (simp add: authenticate_def post_api_rooms_def get_api_messages_def on_connection_def
        wsAuthenticate_def assms(3,4) k jwt_verify_def)
  have b: "p_exp p \<le> now div 1000 \<longrightarrow>
            (let s' = s\<lparr>blacklist := (blacklist s)(tok := None)\<rparr>
             in authenticate s' now (Some tok) = Inl (HttpError 401 ''Invalid token'')
              \<and> get_api_messages s' now (Some tok) r q = Inl (HttpError 401 ''Invalid token'')
              \<and> on_connection s' e (Some tok) = (s', Some 4001))"
    by (simp add: authenticate_def get_api_messages_def on_connection_def wsAuthenticate_def
        assms(3,4) jwt_verify_expired redis_get_blacklist_def Let_def)
  from a b show ?thesis by (rule conjI)
qed

lemma alice_logout: "fst (snd (logout (startup 0) 10000 (Some alice_token))) = 200"
  by (simp add: alice_token_def jwt_sign_def jwt_verify_def logout_def redis_set_blacklist_def)

text \<open>Claim C5 at user1's token, revoked ten seconds after it was issued.\<close>

theorem revoked_token_rejected_witness:
  "fst (snd (logout (startup 0) 10000 (Some alice_token))) = 200
   \<and> alice_token = Jwt SECRET \<lparr>p_id = ''user1'', p_name = ''Alice'', p_iat = 0, p_exp = 3600\<rparr>
   \<and> authenticate (fst (logout (startup 0) 10000 (Some alice_token))) 20000 (Some alice_token)
       = Inl (HttpError 401 ''Token is blacklisted'')
   \<and> snd (on_connection (fst (logout (startup 0) 10000 (Some alice_token)))
        \<lparr>io_now = 20000, io_uuid = ''c1'', connect_ok = True, subscribe_ok = True,
         run_ok = True, disconnect_ok = True, send_ok = True\<rparr> (Some alice_token)) = Some 4001
   \<and> authenticate ((fst (logout (startup 0) 10000 (Some alice_token)))\<lparr>blacklist := Map.empty\<rparr>)
        3600000 (Some alice_token) = Inl (HttpError 401 ''Invalid token'')"
proof -
  let ?s = "fst (logout (startup 0) 10000 (Some alice_token))"
  let ?e = "\<lparr>io_now = 20000, io_uuid = ''c1'', connect_ok = True, subscribe_ok = True,
         run_ok = True, disconnect_ok = True, send_ok = True\<rparr>"
  have tok: "alice_token = Jwt SECRET \<lparr>p_id = ''user1'', p_name = ''Alice'', p_iat = 0, p_exp = 3600\<rparr>"
    by (simp add: alice_token_def jwt_sign_def)
  have r: "?s = run ?s []" by simp
  have bl: "(blacklist ?s)(alice_token := None) = Map.empty"
    by (simp add: alice_token_def jwt_sign_def jwt_verify_def logout_def redis_set_blacklist_def
        startup_def initializeDefaultRooms_def empty_server_def DEFAULT_ROOMS_def)
  from revoked_token_rejected [OF alice_logout r tok, where e = ?e and now = 20000]
  have 1: "authenticate ?s 20000 (Some alice_token) = Inl (HttpError 401 ''Token is blacklisted'')"
       "snd (on_connection ?s ?e (Some alice_token)) = Some 4001"
    by simp_all
  from revoked_token_rejected [OF alice_logout r tok, where e = "?e\<lparr>io_now := 3600000\<rparr>"
      and now = 3600000]
  have 2: "authenticate (?s\<lparr>blacklist := Map.empty\<rparr>) 3600000 (Some alice_token)
             = Inl (HttpError 401 ''Invalid token'')"
    by (simp add: Let_def bl)
  from alice_logout tok 1 2 show ?thesis by simp
qed

text \<open>
  Claim C9, as the code has it. Logout with a token that verifies computes the remaining
  time to live from the embedded expiry, which is positive, answers 200 and stores a
  blacklist entry that is found exactly until that many seconds have passed; nothing else
  in the state changes. Logout with a token that does not verify (expired, malformed, wrong
  signature) leaves the state as it is and answers 400 \<open>Invalid token\<close>.
\<close>

theorem logout_records_ttl:
  "(jwt_verify tok SECRET now = Some decoded \<longrightarrow>
      (let ttl = p_exp decoded - now div 1000; s' = fst (logout s now (Some tok))
       in 0 < ttl
        \<and> snd (logout s now (Some tok)) = (200, ''Logged out and token blacklisted'')
        \<and> s' = s\<lparr>blacklist := (blacklist s)(tok \<mapsto> now + ttl * 1000)\<rparr>
        \<and> (\<forall>t. redis_get_blacklist s' t tok = (t \<le> now + ttl * 1000))))
 \<and> (jwt_verify tok SECRET now = None \<longrightarrow>
      logout s now (Some tok) = (s, 400, ''Invalid token''))"
proof -
  have a: "jwt_verify tok SECRET now = Some decoded \<longrightarrow>
      (let ttl = p_exp decoded - now div 1000; s' = fst (logout s now (Some tok))
       in 0 < ttl
        \<and> snd (logout s now (Some tok)) = (200, ''Logged out and token blacklisted'')
        \<and> s' = s\<lparr>blacklist := (blacklist s)(tok \<mapsto> now + ttl * 1000)\<rparr>
        \<and> (\<forall>t. redis_get_blacklist s' t tok = (t \<le> now + ttl * 1000)))"
  proof
    assume v: "jwt_verify tok SECRET now = Some decoded"
    then have "0 < p_exp decoded - now div 1000" by (simp add: jwt_verify_Some)
    then show "let ttl = p_exp decoded - now div 1000; s' = fst (logout s now (Some tok))
       in 0 < ttl
        \<and> snd (logout s now (Some tok)) = (200, ''Logged out and token blacklisted'')
        \<and> s' = s\<lparr>blacklist := (blacklist s)(tok \<mapsto> now + ttl * 1000)\<rparr>
        \<and> (\<forall>t. redis_get_blacklist s' t tok = (t \<le> now + ttl * 1000))"
      by (simp add: logout_ok [OF v] Let_def redis_get_blacklist_def)
  qed
  have b: "jwt_verify tok SECRET now = None \<longrightarrow>
      logout s now (Some tok) = (s, 400, ''Invalid token'')"
    by (simp add: logout_def)
  from a b show ?thesis by (rule conjI)
qed

text \<open>Claim C9 at user1's token and at a malformed token.\<close>

theorem logout_records_ttl_witness:
  "snd (logout (startup 0) 10000 (Some alice_token)) = (200, ''Logged out and token blacklisted'')
   \<and> blacklist (fst (logout (startup 0) 10000 (Some alice_token))) alice_token = Some 3600000
   \<and> redis_get_blacklist (fst (logout (startup 0) 10000 (Some alice_token))) 3600000 alice_token
   \<and> \<not> redis_get_blacklist (fst (logout (startup 0) 10000 (Some alice_token))) 3600001 alice_token
   \<and> logout (startup 0) 10000 (Some (Malformed ''garbage''))
       = (startup 0, 400, ''Invalid token'')"
proof -
  let ?p = "\<lparr>p_id = ''user1'', p_name = ''Alice'', p_iat = 0, p_exp = 3600\<rparr>"
  let ?s' = "fst (logout (startup 0) 10000 (Some alice_token))"
  have v: "jwt_verify alice_token SECRET 10000 = Some ?p"
    by (simp add: alice_token_def jwt_sign_def jwt_verify_def)
  have m: "jwt_verify (Malformed ''garbage'') SECRET 10000 = None"
    by (simp add: jwt_verify_def)
  note ok = logout_records_ttl [where tok = alice_token and now = 10000 and s = "startup 0"
      and decoded = ?p, THEN conjunct1, THEN mp, OF v, unfolded Let_def]
  note bad = logout_records_ttl [where tok = "Malformed ''garbage''" and now = 10000
      and s = "startup 0", THEN conjunct2, THEN mp, OF m]
  from ok have 1: "snd (logout (startup 0) 10000 (Some alice_token))
                     = (200, ''Logged out and token blacklisted'')"
    by blast
  from ok have "?s' = (startup 0)\<lparr>blacklist := (blacklist (startup 0))(alice_token \<mapsto>
                   10000 + (p_exp ?p - 10000 div 1000) * 1000)\<rparr>"
    by blast
  then have 2: "blacklist ?s' alice_token = Some 3600000" by simp
  from ok have "\<forall>t. redis_get_blacklist ?s' t alice_token
                     = (t \<le> 10000 + (p_exp ?p - 10000 div 1000) * 1000)"
    by blast
  then have 3: "redis_get_blacklist ?s' 3600000 alice_token"
    and 4: "\<not> redis_get_blacklist ?s' 3600001 alice_token"
    by simp_all
  from 1 2 3 4 bad show ?thesis by blast
qed

text \<open>
  Claim C9 as stated says that logout with an invalid token raises no error to the caller.
  An expired token, a malformed one and one signed with another key each get the error
  answer 400.
\<close>

theorem logout_invalid_token_counterexample:
  "snd (logout (startup 0) 3600000 (Some alice_token)) = (400, ''Invalid token'')
   \<and> snd (logout (startup 0) 10000 (Some (Malformed ''garbage''))) = (400, ''Invalid token'')
   \<and> snd (logout (startup 0) 10000 (Some (Jwt ''other_key''
        \<lparr>p_id = ''user1'', p_name = ''Alice'', p_iat = 0, p_exp = 3600\<rparr>))) = (400, ''Invalid token'')"
  by (simp add: alice_token_def jwt_sign_def jwt_verify_def logout_def SECRET_def)

section \<open>Sending a message\<close>

lemma redis_range_0:
  assumes "0 \<le> n"
  shows "redis_range xs 0 n = take (nat n + 1) xs"
proof (cases "xs = []")
  case True
  then show ?thesis by (simp add: redis_range_def)
next
  case False
  then have len: "0 < length xs" by simp
  show ?thesis
  proof (cases "int (length xs) \<le> n")
    case True
    then have "length xs \<le> nat n + 1" by linarith
    with True len assms show ?thesis by (simp add: redis_range_def Let_def)
  next
    case False
    with len assms show ?thesis by (simp add: redis_range_def Let_def nat_add_distrib)
  qed
qed

lemma js_trim_empty: "js_trim body = [] \<longleftrightarrow> (\<forall>c\<in>set body. js_whitespace c)"
proof
  assume "js_trim body = []"
  then have "dropWhile js_whitespace (rev (dropWhile js_whitespace body)) = []"
    by (simp add: js_trim_def)
  then have all: "\<forall>c\<in>set (dropWhile js_whitespace body). js_whitespace c"
    unfolding dropWhile_eq_Nil_conv by simp
  have "dropWhile js_whitespace body = []"
  proof (rule ccontr)
    assume ne: "dropWhile js_whitespace body \<noteq> []"
    then have "\<not> js_whitespace (hd (dropWhile js_whitespace body))" by (rule hd_dropWhile)
    moreover from ne have "hd (dropWhile js_whitespace body) \<in> set (dropWhile js_whitespace body)"
      by (rule hd_in_set)
    ultimately show False using all by blast
  qed
  then show "\<forall>c\<in>set body. js_whitespace c" unfolding dropWhile_eq_Nil_conv .
next
  assume "\<forall>c\<in>set body. js_whitespace c"
  then have d: "dropWhile js_whitespace body = []" unfolding dropWhile_eq_Nil_conv .
  show "js_trim body = []" unfolding js_trim_def d by simp
qed

lemma send_not_joined:
  assumes "clients s clientId = Some client" "roomId \<notin> set (c_rooms client)"
  shows "handleChatMessage s e clientId user roomId content
           = sendToClient s clientId (ErrorFrame ''You are not in this room'')"
  using assms by (simp add: handleChatMessage_def)

lemma send_blank:
  assumes "clients s clientId = Some client" "roomId \<in> set (c_rooms client)" "blank content"
  shows "handleChatMessage s e clientId user roomId content
           = sendToClient s clientId (ErrorFrame ''Message cannot be empty'')"
proof (cases content)
  case None
  with assms show ?thesis by (simp add: handleChatMessage_def)
next
  case (Some body)
  with assms(3) have "js_trim body = []" by (simp add: blank_def js_trim_empty)
  with assms Some show ?thesis by (simp add: handleChatMessage_def)
qed

lemma send_publish_failed:
  assumes "clients s clientId = Some client" "roomId \<in> set (c_rooms client)"
    "\<not> blank content" "\<not> send_ok e"
  shows "handleChatMessage s e clientId user roomId content
           = sendToClient s clientId (ErrorFrame ''Failed to send message, please try again'')"
proof -
  from assms(3) obtain body where c: "content = Some body"
    and "\<not> (\<forall>c\<in>set body. js_whitespace c)"
    by (cases content) (simp_all add: blank_def)
  then have "js_trim body \<noteq> []" "body \<noteq> []" by (auto simp: js_trim_empty)
  with assms c show ?thesis by (simp add: handleChatMessage_def)
qed

lemma send_accepted:
  assumes "clients s clientId = Some client" "roomId \<in> set (c_rooms client)"
    "content = Some body" "\<not> blank content" "send_ok e"
  shows "handleChatMessage s e clientId user roomId content
           = s\<lparr>topics := (topics s)(TOPIC_PREFIX @ roomId :=
                   topics s (TOPIC_PREFIX @ roomId) @ [chat_message user roomId body e]),
                chat_history := (chat_history s)(roomId :=
                   take 50 (chat_message user roomId body e # chat_history s roomId))\<rparr>"
proof -
  from assms(3,4) have "js_trim body \<noteq> []" "body \<noteq> []"
    by (auto simp: js_trim_empty blank_def)
  with assms show ?thesis
    by (simp add: handleChatMessage_def redis_lpush_def redis_ltrim_def producer_send_def
        redis_range_0 MAX_MESSAGES_PER_ROOM_def chat_message_def Let_def)
qed

lemma sendToClient_open:
  assumes "clients s clientId = Some client" "c_open client"
  shows "sendToClient s clientId f
           = s\<lparr>clients := (clients s)(clientId \<mapsto> client\<lparr>c_sent := c_sent client @ [f]\<rparr>)\<rparr>"
  using assms by (simp add: sendToClient_def)

text \<open>
  Claim C6. For a connected session: a send to a room the session has not joined, or with
  blank content, appends one error frame to the sender's socket and changes nothing else,
  so nothing is published or cached. Otherwise, when the publish succeeds, the message
  carrying the operation's uuid and clock reading is appended to the log of the room's
  topic and pushed on the front of the room's recent list, which is cut to 50. When the
  publish fails, the only change is one error frame on the sender's socket: the client
  stays registered with the same joined rooms, and nothing is published or cached.
\<close>

theorem send_contract:
  assumes "clients s clientId = Some client" and "c_open client"
  shows
    "(roomId \<notin> set (c_rooms client) \<longrightarrow>
        handleChatMessage s e clientId user roomId content
          = s\<lparr>clients := (clients s)(clientId \<mapsto>
                client\<lparr>c_sent := c_sent client @ [ErrorFrame ''You are not in this room'']\<rparr>)\<rparr>)
   \<and> (roomId \<in> set (c_rooms client) \<and> blank content \<longrightarrow>
        handleChatMessage s e clientId user roomId content
          = s\<lparr>clients := (clients s)(clientId \<mapsto>
                client\<lparr>c_sent := c_sent client @ [ErrorFrame ''Message cannot be empty'']\<rparr>)\<rparr>)
   \<and> (roomId \<notin> set (c_rooms client) \<or> blank content \<longrightarrow>
        topics (handleChatMessage s e clientId user roomId content) = topics s
      \<and> chat_history (handleChatMessage s e clientId user roomId content) = chat_history s)
   \<and> (roomId \<in> set (c_rooms client) \<and> content = Some body \<and> \<not> blank content \<and> send_ok e \<longrightarrow>
        (let m = \<lparr>msg_type = ''message'', msg_roomId = roomId, msg_content = body,
                  msg_userId = Some (p_id user), msg_username = Some (p_name user),
                  msg_timestamp = io_now e, msg_id = io_uuid e\<rparr>
         in handleChatMessage s e clientId user roomId content
              = s\<lparr>topics := (topics s)(TOPIC_PREFIX @ roomId :=
                      topics s (TOPIC_PREFIX @ roomId) @ [m]),
                   chat_history := (chat_history s)(roomId :=
                      take 50 (m # chat_history s roomId))\<rparr>))
   \<and> (roomId \<in> set (c_rooms client) \<and> \<not> blank content \<and> \<not> send_ok e \<longrightarrow>
        handleChatMessage s e clientId user roomId content
          = s\<lparr>clients := (clients s)(clientId \<mapsto>
                client\<lparr>c_sent := c_sent client
                         @ [ErrorFrame ''Failed to send message, please try again'']\<rparr>)\<rparr>
      \<and> topics (handleChatMessage s e clientId user roomId content) = topics s
      \<and> chat_history (handleChatMessage s e clientId user roomId content) = chat_history s)"
proof -
  note snd = sendToClient_open [OF assms]
  have 1: "roomId \<notin> set (c_rooms client) \<longrightarrow>
        handleChatMessage s e clientId user roomId content
          = s\<lparr>clients := (clients s)(clientId \<mapsto>
                client\<lparr>c_sent := c_sent client @ [ErrorFrame ''You are not in this room'']\<rparr>)\<rparr>"
    by (simp add: send_not_joined [OF assms(1)] snd)
  have 2: "roomId \<in> set (c_rooms client) \<and> blank content \<longrightarrow>
        handleChatMessage s e clientId user roomId content
          = s\<lparr>clients := (clients s)(clientId \<mapsto>
                client\<lparr>c_sent := c_sent client @ [ErrorFrame ''Message cannot be empty'']\<rparr>)\<rparr>"
    by (simp add: send_blank [OF assms(1)] snd)
  have 3: "roomId \<notin> set (c_rooms client) \<or> blank content \<longrightarrow>
        topics (handleChatMessage s e clientId user roomId content) = topics s
      \<and> chat_history (handleChatMessage s e clientId user roomId content) = chat_history s"
  proof (cases "roomId \<in> set (c_rooms client)")
    case True
    then show ?thesis by (simp add: send_blank [OF assms(1)])
  next
    case False
    then show ?thesis by (simp add: send_not_joined [OF assms(1)])
  qed
  have 4: "roomId \<in> set (c_rooms client) \<and> content = Some body \<and> \<not> blank content \<and> send_ok e \<longrightarrow>
        (let m = \<lparr>msg_type = ''message'', msg_roomId = roomId, msg_content = body,
                  msg_userId = Some (p_id user), msg_username = Some (p_name user),
                  msg_timestamp = io_now e, msg_id = io_uuid e\<rparr>
         in handleChatMessage s e clientId user roomId content
              = s\<lparr>topics := (topics s)(TOPIC_PREFIX @ roomId :=
                      topics s (TOPIC_PREFIX @ roomId) @ [m]),
                   chat_history := (chat_history s)(roomId :=
                      take 50 (m # chat_history s roomId))\<rparr>)"
  proof (intro impI, elim conjE)
    assume a: "roomId \<in> set (c_rooms client)" "content = Some body" "\<not> blank content"
      "send_ok e"
    show "let m = \<lparr>msg_type = ''message'', msg_roomId = roomId, msg_content = body,
                  msg_userId = Some (p_id user), msg_username = Some (p_name user),
                  msg_timestamp = io_now e, msg_id = io_uuid e\<rparr>
         in handleChatMessage s e clientId user roomId content
              = s\<lparr>topics := (topics s)(TOPIC_PREFIX @ roomId :=
                      topics s (TOPIC_PREFIX @ roomId) @ [m]),
                   chat_history := (chat_history s)(roomId :=
                      take 50 (m # chat_history s roomId))\<rparr>"
      unfolding Let_def send_accepted [OF assms(1) a] chat_message_def ..
  qed
  have 5: "roomId \<in> set (c_rooms client) \<and> \<not> blank content \<and> \<not> send_ok e \<longrightarrow>
        handleChatMessage s e clientId user roomId content
          = s\<lparr>clients := (clients s)(clientId \<mapsto>
                client\<lparr>c_sent := c_sent client
                         @ [ErrorFrame ''Failed to send message, please try again'']\<rparr>)\<rparr>
      \<and> topics (handleChatMessage s e clientId user roomId content) = topics s
      \<and> chat_history (handleChatMessage s e clientId user roomId content) = chat_history s"
    by (simp add: send_publish_failed [OF assms(1)] snd)
  from 1 2 3 4 5 show ?thesis by blast
qed

lemma joined_c1: "clients joined_state ''c1'' = Some joined_client"
  by code_simp

lemma joined_open: "c_open joined_client"
  by (simp add: joined_client_def)

text \<open>Claim C6 at the client \<open>c1\<close> that has joined \<open>general\<close>.\<close>

theorem send_contract_witness:
  "clients joined_state ''c1'' = Some joined_client \<and> c_open joined_client
   \<and> the (clients (handleChatMessage joined_state (ok_io 10000 ''m1'') ''c1'' alice ''random''
             (Some ''hi'')) ''c1'')
       = joined_client\<lparr>c_sent := c_sent joined_client @ [ErrorFrame ''You are not in this room'']\<rparr>
   \<and> the (clients (handleChatMessage joined_state (ok_io 10000 ''m1'') ''c1'' alice ''general''
             (Some ''  '')) ''c1'')
       = joined_client\<lparr>c_sent := c_sent joined_client @ [ErrorFrame ''Message cannot be empty'']\<rparr>
   \<and> topics (handleChatMessage joined_state (ok_io 10000 ''m1'') ''c1'' alice ''general''
             (Some ''  '')) = topics joined_state
   \<and> chat_history (handleChatMessage joined_state (ok_io 10000 ''m1'') ''c1'' alice ''general''
             (Some ''hi'')) ''general'' = [hi_message 10000 ''m1'']
   \<and> topics (handleChatMessage joined_state (ok_io 10000 ''m1'') ''c1'' alice ''general''
             (Some ''hi'')) ''chat_room_general''
       = [join_notice 5000 ''j1'', hi_message 10000 ''m1'']
   \<and> the (clients (handleChatMessage joined_state ((ok_io 10000 ''m1'')\<lparr>send_ok := False\<rparr>) ''c1''
             alice ''general'' (Some ''hi'')) ''c1'')
       = joined_client\<lparr>c_sent := c_sent joined_client
            @ [ErrorFrame ''Failed to send message, please try again'']\<rparr>"
proof -
  have b1: "blank (Some ''  '')" by (simp add: blank_def js_whitespace_def)
  have b2: "\<not> blank (Some ''hi'')" by (simp add: blank_def js_whitespace_def)
  have r1: "''random'' \<notin> set (c_rooms joined_client)"
    and r2: "''general'' \<in> set (c_rooms joined_client)"
    by (simp_all add: joined_client_def)
  have t0: "topics joined_state ''chat_room_general'' = [join_notice 5000 ''j1'']"
    by code_simp
  have h0: "chat_history joined_state ''general'' = []"
    by code_simp
  note w = send_contract [OF joined_c1 joined_open]
  from w [where roomId = "''random''" and e = "ok_io 10000 ''m1''" and user = alice
      and content = "Some ''hi''"] r1
  have 1: "the (clients (handleChatMessage joined_state (ok_io 10000 ''m1'') ''c1'' alice ''random''
             (Some ''hi'')) ''c1'')
       = joined_client\<lparr>c_sent := c_sent joined_client @ [ErrorFrame ''You are not in this room'']\<rparr>"
    by simp
  from w [where roomId = "''general''" and e = "ok_io 10000 ''m1''" and user = alice
      and content = "Some ''  ''"] r2 b1
  have 2: "the (clients (handleChatMessage joined_state (ok_io 10000 ''m1'') ''c1'' alice ''general''
             (Some ''  '')) ''c1'')
       = joined_client\<lparr>c_sent := c_sent joined_client @ [ErrorFrame ''Message cannot be empty'']\<rparr>"
    "topics (handleChatMessage joined_state (ok_io 10000 ''m1'') ''c1'' alice ''general''
             (Some ''  '')) = topics joined_state"
    by simp_all
  from w [where roomId = "''general''" and e = "ok_io 10000 ''m1''" and user = alice
      and content = "Some ''hi''" and body = "''hi''"] r2 b2
  have 3: "chat_history (handleChatMessage joined_state (ok_io 10000 ''m1'') ''c1'' alice ''general''
             (Some ''hi'')) ''general'' = [hi_message 10000 ''m1'']"
    "topics (handleChatMessage joined_state (ok_io 10000 ''m1'') ''c1'' alice ''general''
             (Some ''hi'')) ''chat_room_general''
       = [join_notice 5000 ''j1'', hi_message 10000 ''m1'']"
    by (simp_all add: ok_io_def Let_def t0 h0 hi_message_def chat_message_def TOPIC_PREFIX_def)
  from w [where roomId = "''general''" and e = "(ok_io 10000 ''m1'')\<lparr>send_ok := False\<rparr>"
      and user = alice and content = "Some ''hi''"] r2 b2
  have 4: "the (clients (handleChatMessage joined_state ((ok_io 10000 ''m1'')\<lparr>send_ok := False\<rparr>) ''c1''
             alice ''general'' (Some ''hi'')) ''c1'')
       = joined_client\<lparr>c_sent := c_sent joined_client
            @ [ErrorFrame ''Failed to send message, please try again'']\<rparr>"
    by (simp add: ok_io_def)
  from joined_c1 joined_open 1 2 3 4 show ?thesis by blast
qed

section \<open>Room creation\<close>

lemma slugify_nth:
  "length (slugify name) = length name"
  "i < length name \<Longrightarrow> slugify name ! i =
      (let c = js_toLowerCase_char (name ! i) in if lower_alnum c then c else CHR ''-'')"
  by (simp_all add: slugify_def js_toLowerCase_def Let_def)





section \<open>Archival consumer\<close>

lemma storage_eachMessage_eq:
  "storage_eachMessage s e topic m =
     (if messageSchema_valid (archived_doc e topic m)
      then s\<lparr>archive := archive s @ [archived_doc e topic m]\<rparr> else s)"
proof -
  have "archived_doc e topic m =
          \<lparr>msg_type = msg_type m, msg_roomId = drop (length TOPIC_PREFIX) topic,
           msg_content = msg_content m, msg_userId = msg_userId m,
           msg_username = msg_username m, msg_timestamp = msg_timestamp m,
           msg_id = (if msg_id m = [] then io_uuid e else msg_id m)\<rparr>"
    by (simp add: archived_doc_def)
  then show ?thesis
    by (simp add: storage_eachMessage_def Message_create_def Let_def)
qed

text \<open>
  Claim C4, as the code has it. Each time the storage consumer processes a bus message
  whose document passes the schema, it appends that document to the archive, whatever the
  archive already holds: the number of documents with the document's id grows by one, and
  the id is the message's own id when it has one. A document that fails the schema is
  dropped and the state is unchanged.
\<close>

theorem archival_appends_each_delivery:
  "(messageSchema_valid (archived_doc e topic m) \<longrightarrow>
       storage_eachMessage s e topic m = s\<lparr>archive := archive s @ [archived_doc e topic m]\<rparr>
     \<and> count_id (msg_id (archived_doc e topic m)) (archive (storage_eachMessage s e topic m))
         = Suc (count_id (msg_id (archived_doc e topic m)) (archive s)))
   \<and> (\<not> messageSchema_valid (archived_doc e topic m) \<longrightarrow> storage_eachMessage s e topic m = s)
   \<and> (msg_id m \<noteq> [] \<longrightarrow> msg_id (archived_doc e topic m) = msg_id m)"
  by (simp add: storage_eachMessage_eq count_id_def) (simp add: archived_doc_def)

text \<open>Claim C4 at the second delivery of the join notice \<open>j1\<close>.\<close>

theorem archival_appends_each_delivery_witness:
  "messageSchema_valid (archived_doc (ok_io 7000 ''d2'') ''chat_room_general'' (join_notice 5000 ''j1''))
   \<and> msg_id (join_notice 5000 ''j1'') \<noteq> []
   \<and> count_id (msg_id (join_notice 5000 ''j1''))
        (archive (storage_eachMessage archived_once (ok_io 7000 ''d2'') ''chat_room_general''
           (join_notice 5000 ''j1'')))
       = Suc (count_id (msg_id (join_notice 5000 ''j1'')) (archive archived_once))"
proof -
  have v: "messageSchema_valid (archived_doc (ok_io 7000 ''d2'') ''chat_room_general''
             (join_notice 5000 ''j1''))"
    by code_simp
  have i: "msg_id (join_notice 5000 ''j1'') \<noteq> []"
    by (simp add: join_notice_def system_notice_def ok_io_def)
  note t = archival_appends_each_delivery [of "ok_io 7000 ''d2''" "''chat_room_general''"
      "join_notice 5000 ''j1''" archived_once]
  from t i have b: "msg_id (archived_doc (ok_io 7000 ''d2'') ''chat_room_general''
                      (join_notice 5000 ''j1'')) = msg_id (join_notice 5000 ''j1'')"
    by blast
  from t v have "count_id (msg_id (archived_doc (ok_io 7000 ''d2'') ''chat_room_general''
                      (join_notice 5000 ''j1'')))
        (archive (storage_eachMessage archived_once (ok_io 7000 ''d2'') ''chat_room_general''
           (join_notice 5000 ''j1'')))
       = Suc (count_id (msg_id (archived_doc (ok_io 7000 ''d2'') ''chat_room_general''
                      (join_notice 5000 ''j1''))) (archive archived_once))"
    by blast
  then have "count_id (msg_id (join_notice 5000 ''j1''))
        (archive (storage_eachMessage archived_once (ok_io 7000 ''d2'') ''chat_room_general''
           (join_notice 5000 ''j1'')))
       = Suc (count_id (msg_id (join_notice 5000 ''j1'')) (archive archived_once))"
    unfolding b .
  with v i show ?thesis by blast
qed

text \<open>
  Claim C4 as stated says that processing a message again when its id is already stored
  creates no second record. The join notice \<open>j1\<close> is in the log of its topic and stored
  once; after the storage consumer has processed it again, two documents carry its id.
\<close>

theorem archival_duplicate_counterexample:
  "join_notice 5000 ''j1'' \<in> set (topics archived_once ''chat_room_general'')
   \<and> count_id ''j1'' (archive archived_once) = 1
   \<and> count_id ''j1''
        (archive (storage_eachMessage archived_once (ok_io 7000 ''d2'') ''chat_room_general''
           (join_notice 5000 ''j1''))) = 2"
  by code_simp

section \<open>The recent-message lists\<close>

lemma handleChatMessage_history:
  "chat_history (handleChatMessage s e c u r content) = chat_history s
   \<or> (\<exists>body. chat_history (handleChatMessage s e c u r content)
         = (chat_history s)(r := take 50 (chat_message u r body e # chat_history s r)))"
proof (cases "clients s c")
  case None
  then show ?thesis by (simp add: handleChatMessage_def)
next
  case (Some client)
  show ?thesis
  proof (cases "r \<in> set (c_rooms client)")
    case False
    then show ?thesis by (simp add: send_not_joined [OF Some])
  next
    case True
    show ?thesis
    proof (cases "blank content")
      case True
      then show ?thesis by (simp add: send_blank [OF Some \<open>r \<in> set (c_rooms client)\<close>])
    next
      case False
      then obtain body where c: "content = Some body" by (cases content) (simp_all add: blank_def)
      show ?thesis
      proof (cases "send_ok e")
        case True
        have "chat_history (handleChatMessage s e c u r content)
                = (chat_history s)(r := take 50 (chat_message u r body e # chat_history s r))"
          unfolding send_accepted [OF Some \<open>r \<in> set (c_rooms client)\<close> c False True] by simp
        then show ?thesis by blast
      next
        case no: False
        show ?thesis
          by (simp add: send_publish_failed [OF Some \<open>r \<in> set (c_rooms client)\<close> False no])
      qed
    qed
  qed
qed

lemma step_history:
  "chat_history (step s e ev) = chat_history s
   \<or> (\<exists>u r body. chat_history (step s e ev)
         = (chat_history s)(r := take 50 (chat_message u r body e # chat_history s r)))"
proof (cases ev)
  case (WsMessage c f)
  show ?thesis
  proof (cases "clients s c")
    case None
    then show ?thesis using WsMessage by (simp add: step_def)
  next
    case (Some client)
    show ?thesis
    proof (cases f)
      case (JoinReq r)
      obtain s' k where j: "handleJoinRoom s e c (c_user client) r = (s', k)"
        by (cases "handleJoinRoom s e c (c_user client) r")
      then have "chat_history s' = chat_history s" by (rule handleJoinRoom_frame)
      then show ?thesis using WsMessage Some JoinReq j
        by (cases k) (simp_all add: step_def on_message_def)
    next
      case (MessageReq r content)
      then have "step s e ev = handleChatMessage s e c (c_user client) r content"
        using WsMessage Some by (simp add: step_def on_message_def)
      then show ?thesis using handleChatMessage_history [of s e c "c_user client" r content]
        by auto
    qed (use WsMessage Some in \<open>simp_all add: step_def on_message_def\<close>)
  qed
qed (simp_all add: step_def)

lemma newest_first_push:
  assumes "newest_first ms" "\<forall>m\<in>set ms. msg_timestamp m \<le> msg_timestamp x"
  shows "newest_first (take n (x # ms))"
proof -
  from assms have "newest_first (x # ms)" by (simp add: newest_first_def)
  then show ?thesis unfolding newest_first_def by (rule sorted_wrt_take)
qed

lemma cache_inv_step:
  assumes "cache_inv t s" "t \<le> io_now e"
  shows "cache_inv (io_now e) (step s e ev)"
proof -
  from step_history [of s e ev] show ?thesis
  proof
    assume "chat_history (step s e ev) = chat_history s"
    with assms show ?thesis by (fastforce simp: cache_inv_def)
  next
    assume "\<exists>u r body. chat_history (step s e ev)
         = (chat_history s)(r := take 50 (chat_message u r body e # chat_history s r))"
    then obtain u r body where h: "chat_history (step s e ev)
         = (chat_history s)(r := take 50 (chat_message u r body e # chat_history s r))"
      by blast
    let ?m = "chat_message u r body e"
    have ts: "msg_timestamp ?m = io_now e" and ty: "msg_type ?m = ''message''"
      by (simp_all add: chat_message_def)
    show ?thesis unfolding cache_inv_def
    proof (intro allI)
      fix r'
      show "int (length (chat_history (step s e ev) r')) \<le> MAX_MESSAGES_PER_ROOM
        \<and> newest_first (chat_history (step s e ev) r')
        \<and> (\<forall>m\<in>set (chat_history (step s e ev) r').
              msg_timestamp m \<le> io_now e \<and> msg_type m = ''message'')"
      proof (cases "r' = r")
        case False
        then have "chat_history (step s e ev) r' = chat_history s r'" by (simp add: h)
        with assms show ?thesis by (fastforce simp: cache_inv_def)
      next
        case True
        then have eq: "chat_history (step s e ev) r' = take 50 (?m # chat_history s r)"
          by (simp add: h)
        from assms have old: "newest_first (chat_history s r)"
          "\<forall>m\<in>set (chat_history s r). msg_timestamp m \<le> io_now e \<and> msg_type m = ''message''"
          by (fastforce simp: cache_inv_def)+
        have 1: "int (length (take 50 (?m # chat_history s r))) \<le> MAX_MESSAGES_PER_ROOM"
          by (simp add: MAX_MESSAGES_PER_ROOM_def)
        have 2: "newest_first (take 50 (?m # chat_history s r))"
          using old by (intro newest_first_push) (simp_all add: ts)
        have "\<forall>m\<in>set (?m # chat_history s r).
                 msg_timestamp m \<le> io_now e \<and> msg_type m = ''message''"
          using old(2) by (simp add: ts ty)
        then have 3: "\<forall>m\<in>set (take 50 (?m # chat_history s r)).
                 msg_timestamp m \<le> io_now e \<and> msg_type m = ''message''"
          using set_take_subset by fast
        from 1 2 3 show ?thesis unfolding eq by blast
      qed
    qed
  qed
qed

lemma chat_history_startup: "chat_history (startup t) = (\<lambda>_. [])"
  by (simp add: startup_def initializeDefaultRooms_def empty_server_def DEFAULT_ROOMS_def)

lemma reach_cache_inv: "reach t s \<Longrightarrow> cache_inv t s"
proof (induction rule: reach.induct)
  case (reach_startup t)
  show ?case
    by (simp add: cache_inv_def chat_history_startup MAX_MESSAGES_PER_ROOM_def newest_first_def)
next
  case (reach_step t s e ev)
  then show ?case by (simp add: cache_inv_step)
qed



section \<open>System notices and the recent lists\<close>

lemma set_redis_range: "set (redis_range xs a b) \<subseteq> set xs"
proof -
  have "set (take n (drop k xs)) \<subseteq> set xs" for n k
    using set_take_subset set_drop_subset by fast
  then show ?thesis by (simp add: redis_range_def Let_def)
qed

lemma join_publishes:
  assumes "clients s c = Some client" "r \<in> rooms s" "r \<notin> set (c_rooms client)"
    "snd (getOrCreateRoomConsumer s e r) \<noteq> None" "send_ok e"
  shows "topics (fst (handleJoinRoom s e c u r))
           = (topics s)(TOPIC_PREFIX @ r := topics s (TOPIC_PREFIX @ r)
                @ [system_notice r (p_name u @ '' has joined the room'') e])"
proof -
  obtain s1 d where g: "getOrCreateRoomConsumer s e r = (s1, Some d)"
    using assms(4) by (cases "getOrCreateRoomConsumer s e r") auto
  then have "topics s1 = topics s" by (rule getOrCreate_frame)
  then show ?thesis using assms g
    by (simp add: handleJoinRoom_unfold Let_def producer_send_def)
qed

lemma leave_publishes:
  assumes "clients s c = Some client" "r \<in> set (c_rooms client)" "send_ok e"
  shows "topics (handleLeaveRoom s e c r)
           = (topics s)(TOPIC_PREFIX @ r := topics s (TOPIC_PREFIX @ r)
                @ [system_notice r (p_name (c_user client) @ '' has left the room'') e])"
  using assms
  by (simp add: handleLeaveRoom_unfold Let_def producer_send_def split: option.splits)

lemma redis_read_from_cache:
  assumes "q_source q = Some ''redis''" "getMessages s r q = Inr resp" "p \<in> set (hr_messages resp)"
  shows "pm_source p = ''redis'' \<and> pm_message p \<in> set (chat_history s r)"
proof -
  from assms(2) have "hr_messages resp = sort_page (fetch_messages s r q)"
    by (auto simp: getMessages_def Let_def split: if_splits)
  with assms(1,3) have "p \<in> tag ''redis'' ` set (redis_range (chat_history s r) 0 (parsedLimit q - 1))"
    by (simp add: fetch_messages_def Let_def sort_page_def redis_lrange_def)
  then obtain m where m: "m \<in> set (redis_range (chat_history s r) 0 (parsedLimit q - 1))"
    and p: "p = tag ''redis'' m"
    by blast
  have "m \<in> set (chat_history s r)" using set_redis_range m by (rule subsetD)
  then show ?thesis by (simp add: p tag_def)
qed

text \<open>
  Claim C10. A join, a leave and the leaves of a disconnect return every recent list as
  it was. A join that gets as far as its notice, and a leave, append their \<open>system\<close> notice
  to the log of the room's topic when the publish succeeds. In a reachable state every
  cached message is a chat message, so a history read with \<open>source=redis\<close> returns cached
  chat messages only and no system notice at all.
\<close>

theorem notices_bypass_cache:
  assumes "reach t s"
  shows "chat_history (fst (handleJoinRoom s e c u r)) = chat_history s
       \<and> chat_history (handleLeaveRoom s e c r) = chat_history s
       \<and> chat_history (on_close s env c) = chat_history s
       \<and> (clients s c = Some client \<and> r \<in> rooms s \<and> r \<notin> set (c_rooms client)
            \<and> snd (getOrCreateRoomConsumer s e r) \<noteq> None \<and> send_ok e \<longrightarrow>
          topics (fst (handleJoinRoom s e c u r)) (TOPIC_PREFIX @ r)
            = topics s (TOPIC_PREFIX @ r)
                @ [system_notice r (p_name u @ '' has joined the room'') e])
       \<and> (clients s c = Some client \<and> r \<in> set (c_rooms client) \<and> send_ok e \<longrightarrow>
          topics (handleLeaveRoom s e c r) (TOPIC_PREFIX @ r)
            = topics s (TOPIC_PREFIX @ r)
                @ [system_notice r (p_name (c_user client) @ '' has left the room'') e])
       \<and> msg_type (system_notice r content e) = ''system''
       \<and> (\<forall>m\<in>set (chat_history s r). msg_type m = ''message'')
       \<and> (q_source q = Some ''redis'' \<and> getMessages s r q = Inr resp \<longrightarrow>
            (\<forall>p\<in>set (hr_messages resp).
               pm_message p \<in> set (chat_history s r) \<and> msg_type (pm_message p) \<noteq> ''system''))"
proof -
  have 1: "chat_history (fst (handleJoinRoom s e c u r)) = chat_history s"
    by (cases "handleJoinRoom s e c u r") (simp add: handleJoinRoom_frame)
  have 2: "chat_history (handleLeaveRoom s e c r) = chat_history s"
    and 3: "chat_history (on_close s env c) = chat_history s"
    by simp_all
  have 4: "clients s c = Some client \<and> r \<in> rooms s \<and> r \<notin> set (c_rooms client)
            \<and> snd (getOrCreateRoomConsumer s e r) \<noteq> None \<and> send_ok e \<longrightarrow>
          topics (fst (handleJoinRoom s e c u r)) (TOPIC_PREFIX @ r)
            = topics s (TOPIC_PREFIX @ r)
                @ [system_notice r (p_name u @ '' has joined the room'') e]"
    by (simp add: join_publishes)
  have 5: "clients s c = Some client \<and> r \<in> set (c_rooms client) \<and> send_ok e \<longrightarrow>
          topics (handleLeaveRoom s e c r) (TOPIC_PREFIX @ r)
            = topics s (TOPIC_PREFIX @ r)
                @ [system_notice r (p_name (c_user client) @ '' has left the room'') e]"
    by (simp add: leave_publishes)
  have 6: "msg_type (system_notice r content e) = ''system''"
    by (simp add: system_notice_def)
  from assms have "cache_inv t s" by (rule reach_cache_inv)
  then have 7: "\<forall>m\<in>set (chat_history s r). msg_type m = ''message''"
    by (simp add: cache_inv_def)
  have 8: "q_source q = Some ''redis'' \<and> getMessages s r q = Inr resp \<longrightarrow>
            (\<forall>p\<in>set (hr_messages resp).
               pm_message p \<in> set (chat_history s r) \<and> msg_type (pm_message p) \<noteq> ''system'')"
  proof (intro impI ballI, elim conjE)
    fix p
    assume a: "q_source q = Some ''redis''" "getMessages s r q = Inr resp"
      "p \<in> set (hr_messages resp)"
    then have "pm_message p \<in> set (chat_history s r)" using redis_read_from_cache by blast
    moreover from this 7 have "msg_type (pm_message p) = ''message''" by blast
    ultimately show "pm_message p \<in> set (chat_history s r) \<and> msg_type (pm_message p) \<noteq> ''system''"
      by simp
  qed
  from 1 2 3 4 5 6 7 8 show ?thesis by blast
qed

text \<open>Claim C10 at the end of the concrete run: \<open>c1\<close> joins \<open>random\<close>, or leaves
  \<open>general\<close>, and the cache-only read of \<open>general\<close>.\<close>

theorem notices_bypass_cache_witness:
  "reach 20000 final_state
   \<and> chat_history (fst (handleJoinRoom final_state (ok_io 30000 ''j3'') ''c1'' alice ''random''))
       = chat_history final_state
   \<and> topics (fst (handleJoinRoom final_state (ok_io 30000 ''j3'') ''c1'' alice ''random''))
        ''chat_room_random''
       = [system_notice ''random'' ''Alice has joined the room'' (ok_io 30000 ''j3'')]
   \<and> topics (handleLeaveRoom final_state (ok_io 30000 ''l1'') ''c1'' ''general'')
        ''chat_room_general''
       = topics final_state ''chat_room_general''
           @ [system_notice ''general'' ''Alice has left the room'' (ok_io 30000 ''l1'')]
   \<and> chat_history (handleLeaveRoom final_state (ok_io 30000 ''l1'') ''c1'' ''general'')
       = chat_history final_state
   \<and> ''system'' \<notin> set (map (msg_type \<circ> pm_message)
         (hr_messages (projr (getMessages final_state ''general''
             (default_query\<lparr>q_source := Some ''redis''\<rparr>)))))
   \<and> map (msg_id \<circ> pm_message) (hr_messages (projr (getMessages final_state ''general''
             (default_query\<lparr>q_source := Some ''redis''\<rparr>)))) = [''m2'', ''m1'']"
proof -
  let ?q = "default_query\<lparr>q_source := Some ''redis''\<rparr>"
  have h1: "''random'' \<in> rooms final_state" by code_simp
  have h2: "''random'' \<notin> set (c_rooms joined_client)"
    and h3: "''general'' \<in> set (c_rooms joined_client)"
    by (simp_all add: joined_client_def)
  have h4: "snd (getOrCreateRoomConsumer final_state (ok_io 30000 ''j3'') ''random'') \<noteq> None"
    by code_simp
  have h5: "send_ok (ok_io 30000 ''j3'')" "send_ok (ok_io 30000 ''l1'')"
    by (simp_all add: ok_io_def)
  have h6: "q_source ?q = Some ''redis''" by simp
  have h7: "getMessages final_state ''general'' ?q
              = Inr (projr (getMessages final_state ''general'' ?q))"
    by code_simp
  have t0: "topics final_state ''chat_room_random'' = []" by code_simp
  have ids: "map (msg_id \<circ> pm_message) (hr_messages (projr (getMessages final_state ''general''
             ?q))) = [''m2'', ''m1'']"
    by code_simp
  note j = notices_bypass_cache [OF reach_final, where e = "ok_io 30000 ''j3''" and c = "''c1''"
      and u = alice and r = "''random''" and client = joined_client]
  note l = notices_bypass_cache [OF reach_final, where e = "ok_io 30000 ''l1''" and c = "''c1''"
      and r = "''general''" and client = joined_client and q = ?q
      and resp = "projr (getMessages final_state ''general'' ?q)"]
  from j have 1: "chat_history (fst (handleJoinRoom final_state (ok_io 30000 ''j3'') ''c1'' alice
                     ''random'')) = chat_history final_state"
    by blast
  from j final_c1 h1 h2 h4 h5(1)
  have "topics (fst (handleJoinRoom final_state (ok_io 30000 ''j3'') ''c1'' alice ''random''))
          (TOPIC_PREFIX @ ''random'')
        = topics final_state (TOPIC_PREFIX @ ''random'')
           @ [system_notice ''random'' (p_name alice @ '' has joined the room'') (ok_io 30000 ''j3'')]"
    by blast
  then have 2: "topics (fst (handleJoinRoom final_state (ok_io 30000 ''j3'') ''c1'' alice ''random''))
        ''chat_room_random''
       = [system_notice ''random'' ''Alice has joined the room'' (ok_io 30000 ''j3'')]"
    by (simp add: TOPIC_PREFIX_def t0 alice_def)
  from l final_c1 h3 h5(2)
  have "topics (handleLeaveRoom final_state (ok_io 30000 ''l1'') ''c1'' ''general'')
          (TOPIC_PREFIX @ ''general'')
        = topics final_state (TOPIC_PREFIX @ ''general'')
           @ [system_notice ''general'' (p_name (c_user joined_client) @ '' has left the room'')
                (ok_io 30000 ''l1'')]"
    by blast
  then have 3: "topics (handleLeaveRoom final_state (ok_io 30000 ''l1'') ''c1'' ''general'')
        ''chat_room_general''
       = topics final_state ''chat_room_general''
           @ [system_notice ''general'' ''Alice has left the room'' (ok_io 30000 ''l1'')]"
    by (simp add: TOPIC_PREFIX_def joined_client_def alice_def)
  from l have 4: "chat_history (handleLeaveRoom final_state (ok_io 30000 ''l1'') ''c1'' ''general'')
       = chat_history final_state"
    by blast
  from l h6 h7 have "\<forall>p\<in>set (hr_messages (projr (getMessages final_state ''general'' ?q))).
         msg_type (pm_message p) \<noteq> ''system''"
    by blast
  then have 5: "''system'' \<notin> set (map (msg_type \<circ> pm_message)
         (hr_messages (projr (getMessages final_state ''general'' ?q))))"
    by auto
  from reach_final 1 2 3 4 5 ids show ?thesis by blast
qed

section \<open>History reads\<close>

lemma sort_page_sorted:
  "sorted_wrt (\<lambda>a b. pm_timestamp b \<le> pm_timestamp a) (sort_page ps)"
proof -
  have "sorted (map (\<lambda>p. - pm_timestamp p) (sort_page ps))"
    unfolding sort_page_def by (rule sorted_sort_key)
  then show ?thesis by (simp add: sorted_map)
qed

lemma sort_page_stable:
  "filter (\<lambda>p. pm_timestamp p = t) (sort_page ps) = filter (\<lambda>p. pm_timestamp p = t) ps"
proof -
  have "filter (\<lambda>p. - pm_timestamp p = - t) (sort_key (\<lambda>p. - pm_timestamp p) ps)
          = filter (\<lambda>p. - pm_timestamp p = - t) ps"
    by (rule sort_key_stable)
  then show ?thesis by (simp add: sort_page_def)
qed

lemma sort_page_props [simp]:
  "length (sort_page ps) = length ps" "set (sort_page ps) = set ps"
  "mset (sort_page ps) = mset ps"
  by (simp_all add: sort_page_def)

lemma sort_page_Nil [simp]: "(sort_page ps = []) = (ps = [])"
proof -
  have "length (sort_page ps) = length ps" by simp
  then show ?thesis by (metis length_0_conv)
qed

lemma getMessages_found:
  assumes "r \<in> rooms s"
  shows "getMessages s r q =
     Inr \<lparr>hr_messages = sort_page (fetch_messages s r q),
          hr_pagination =
            \<lparr>pg_count = length (fetch_messages s r q),
             pg_hasMore = (int (length (fetch_messages s r q)) = parsedLimit q),
             pg_oldest = (if fetch_messages s r q = [] then None
                          else Some (Min (pm_timestamp ` set (fetch_messages s r q)))),
             pg_newest = (if fetch_messages s r q = [] then None
                          else Some (Max (pm_timestamp ` set (fetch_messages s r q))))\<rparr>\<rparr>"
  using assms by (simp add: getMessages_def Let_def)

lemma mongo_find_subset:
  assumes "d \<in> set (mongo_find P n docs)"
  shows "d \<in> set docs \<and> P d"
proof -
  let ?xs = "sort_key (\<lambda>m. - msg_timestamp m) (filter P docs)"
  have "d \<in> set ?xs"
  proof (cases "n = 0")
    case True
    with assms show ?thesis by (simp add: mongo_find_def)
  next
    case False
    with assms have "d \<in> set (take (nat \<bar>n\<bar>) ?xs)" by (simp add: mongo_find_def Let_def)
    then show ?thesis by (rule in_set_takeD)
  qed
  then show ?thesis by simp
qed

lemma mongo_find_length:
  assumes "n \<noteq> 0"
  shows "int (length (mongo_find P n docs)) \<le> \<bar>n\<bar>"
  using assms by (simp add: mongo_find_def Let_def)

lemma sorted_take_drop:
  assumes "sorted (map f xs)" "a \<in> set (take k xs)" "b \<in> set (drop k xs)"
  shows "f a \<le> f b"
proof -
  have "sorted (map f (take k xs @ drop k xs))" using assms(1) by simp
  then have "\<forall>x\<in>set (take k xs). \<forall>y\<in>set (drop k xs). f x \<le> f y"
    unfolding map_append sorted_append by auto
  with assms(2,3) show ?thesis by blast
qed

lemma mongo_find_newest:
  assumes "d \<in> set docs" "P d" "d \<notin> set (mongo_find P n docs)"
  shows "n \<noteq> 0 \<and> length (mongo_find P n docs) = nat \<bar>n\<bar>
       \<and> (\<forall>a\<in>set (mongo_find P n docs). msg_timestamp d \<le> msg_timestamp a)"
proof -
  let ?xs = "sort_key (\<lambda>m. - msg_timestamp m) (filter P docs)"
  from assms(1,2) have in_xs: "d \<in> set ?xs" by simp
  have n: "n \<noteq> 0"
  proof
    assume "n = 0"
    then have "mongo_find P n docs = ?xs" by (simp add: mongo_find_def)
    with in_xs assms(3) show False by simp
  qed
  then have eq: "mongo_find P n docs = take (nat \<bar>n\<bar>) ?xs" by (simp add: mongo_find_def Let_def)
  have "set ?xs = set (take (nat \<bar>n\<bar>) ?xs) \<union> set (drop (nat \<bar>n\<bar>) ?xs)"
    by (metis append_take_drop_id set_append)
  with in_xs assms(3) eq have in_drop: "d \<in> set (drop (nat \<bar>n\<bar>) ?xs)" by auto
  then have "drop (nat \<bar>n\<bar>) ?xs \<noteq> []" by auto
  then have len: "length (take (nat \<bar>n\<bar>) ?xs) = nat \<bar>n\<bar>" by simp
  have srt: "sorted (map (\<lambda>m. - msg_timestamp m) ?xs)" by (rule sorted_sort_key)
  have "\<forall>a\<in>set (take (nat \<bar>n\<bar>) ?xs). msg_timestamp d \<le> msg_timestamp a"
  proof
    fix a assume "a \<in> set (take (nat \<bar>n\<bar>) ?xs)"
    from sorted_take_drop [OF srt this in_drop] show "msg_timestamp d \<le> msg_timestamp a"
      by simp
  qed
  with n len show ?thesis unfolding eq by blast
qed

lemma fetch_combined:
  assumes "q_source q \<noteq> Some ''redis''" "q_source q \<noteq> Some ''mongodb''"
    "cursor (q_before q) = None"
    "hot = redis_lrange s r 0 (parsedLimit q - 1)" "hot \<noteq> []"
    "int (length hot) < parsedLimit q"
  shows "fetch_messages s r q =
           map (tag ''redis'') hot
           @ map (tag ''mongodb'')
               (mongo_find (mongo_query r (Some (msg_timestamp (last hot))) None)
                  (parsedLimit q - int (length hot)) (archive s))"
proof -
  have "pm_timestamp (last (map (tag ''redis'') hot)) = msg_timestamp (last hot)"
    using assms(5) by (simp add: last_map pm_timestamp_def tag_def)
  then show ?thesis using assms
    by (simp add: fetch_messages_def Let_def)
qed

lemma newest_first_last:
  assumes "newest_first ms" "m \<in> set ms"
  shows "msg_timestamp (last ms) \<le> msg_timestamp m"
proof -
  from assms(2) have ne: "ms \<noteq> []" by auto
  then have split: "ms = butlast ms @ [last ms]" by simp
  from assms(1) have "sorted_wrt (\<lambda>a b. msg_timestamp b \<le> msg_timestamp a) (butlast ms @ [last ms])"
    unfolding newest_first_def using split by simp
  then have "\<forall>x\<in>set (butlast ms). msg_timestamp (last ms) \<le> msg_timestamp x"
    unfolding sorted_wrt_append by simp
  moreover from assms(2) split have "m \<in> set (butlast ms) \<or> m = last ms"
    by (metis Un_iff empty_iff insert_iff list.set(1) list.set(2) set_append)
  ultimately show ?thesis by auto
qed

lemma newest_first_redis_lrange:
  assumes "newest_first (chat_history s r)"
  shows "newest_first (redis_lrange s r 0 n)"
proof (cases "0 \<le> n")
  case True
  then have "redis_lrange s r 0 n = take (nat n + 1) (chat_history s r)"
    by (simp add: redis_lrange_def redis_range_0)
  with assms show ?thesis by (simp add: newest_first_def sorted_wrt_take)
next
  case False
  have "redis_range xs 0 n = take (nat (int (length xs) + n + 1)) xs" for xs :: "message list"
    using False by (auto simp: redis_range_def Let_def)
  then have "redis_lrange s r 0 n
               = take (nat (int (length (chat_history s r)) + n + 1)) (chat_history s r)"
    by (simp add: redis_lrange_def)
  with assms show ?thesis by (simp add: newest_first_def sorted_wrt_take)
qed

lemma general_room: "''general'' \<in> rooms final_state"
  by code_simp

lemma final_hot:
  "redis_lrange final_state ''general'' 0 (parsedLimit default_query - 1)
     = [hi_message 20000 ''m2'', hi_message 10000 ''m1'']"
  by code_simp

lemma final_arch:
  "mongo_find (mongo_query ''general'' (Some (msg_timestamp (last
       [hi_message 20000 ''m2'', hi_message 10000 ''m1'']))) None)
     (parsedLimit default_query - int (length [hi_message 20000 ''m2'', hi_message 10000 ''m1'']))
     (archive final_state)
     = [join_notice 5000 ''j1'', join_notice 5000 ''j1'']"
  by code_simp

lemma combined_read_nonempty:
  assumes "reach t s" and "r \<in> rooms s"
    and "q_source q \<noteq> Some ''redis''" and "q_source q \<noteq> Some ''mongodb''"
    and "cursor (q_before q) = None"
    and "hot = redis_lrange s r 0 (parsedLimit q - 1)"
    and "hot \<noteq> []" and "int (length hot) < parsedLimit q"
    and "arch = mongo_find (mongo_query r (Some (msg_timestamp (last hot))) None)
                  (parsedLimit q - int (length hot)) (archive s)"
  shows "\<exists>resp. getMessages s r q = Inr resp
       \<and> mset (hr_messages resp)
           = mset (map (tag ''redis'') hot) + mset (map (tag ''mongodb'') arch)
       \<and> (\<forall>d\<in>set arch. d \<in> set (archive s) \<and> msg_roomId d = r
             \<and> (\<forall>m\<in>set hot. msg_timestamp d < msg_timestamp m))
       \<and> int (length arch) \<le> parsedLimit q - int (length hot)
       \<and> (\<forall>d\<in>set (archive s).
             msg_roomId d = r \<and> msg_timestamp d < msg_timestamp (last hot) \<and> d \<notin> set arch \<longrightarrow>
               int (length arch) = parsedLimit q - int (length hot)
             \<and> (\<forall>a\<in>set arch. msg_timestamp d \<le> msg_timestamp a))"
proof -
  let ?resp = "projr (getMessages s r q)"
  let ?P = "mongo_query r (Some (msg_timestamp (last hot))) None"
  let ?n = "parsedLimit q - int (length hot)"
  have n: "0 < ?n" using assms(8) by simp
  note eq = getMessages_found [OF assms(2), of q]
  have 0: "getMessages s r q = Inr ?resp" unfolding eq by simp
  have m: "hr_messages ?resp = sort_page (fetch_messages s r q)" unfolding eq by simp
  have f: "fetch_messages s r q = map (tag ''redis'') hot @ map (tag ''mongodb'') arch"
    unfolding assms(9) using assms(3-8) by (rule fetch_combined)
  have 1: "mset (hr_messages ?resp)
           = mset (map (tag ''redis'') hot) + mset (map (tag ''mongodb'') arch)"
    unfolding m f by simp
  from assms(1) have "cache_inv t s" by (rule reach_cache_inv)
  then have "newest_first (chat_history s r)" by (simp add: cache_inv_def)
  then have nf: "newest_first hot" unfolding assms(6) by (rule newest_first_redis_lrange)
  have 2: "\<forall>d\<in>set arch. d \<in> set (archive s) \<and> msg_roomId d = r
             \<and> (\<forall>m\<in>set hot. msg_timestamp d < msg_timestamp m)"
  proof (intro ballI conjI)
    fix d assume "d \<in> set arch"
    then have d: "d \<in> set (archive s) \<and> ?P d" unfolding assms(9) by (rule mongo_find_subset)
    then show "d \<in> set (archive s)" and "msg_roomId d = r" by (simp_all add: mongo_query_def)
    fix m assume "m \<in> set hot"
    with nf have "msg_timestamp (last hot) \<le> msg_timestamp m" by (rule newest_first_last)
    moreover from d have "msg_timestamp d < msg_timestamp (last hot)" by (simp add: mongo_query_def)
    ultimately show "msg_timestamp d < msg_timestamp m" by simp
  qed
  have 3: "int (length arch) \<le> ?n"
    using mongo_find_length [of ?n ?P "archive s"] n unfolding assms(9) by simp
  have 4: "\<forall>d\<in>set (archive s).
             msg_roomId d = r \<and> msg_timestamp d < msg_timestamp (last hot) \<and> d \<notin> set arch \<longrightarrow>
               int (length arch) = ?n \<and> (\<forall>a\<in>set arch. msg_timestamp d \<le> msg_timestamp a)"
  proof (intro ballI impI, elim conjE)
    fix d
    assume d: "d \<in> set (archive s)" "msg_roomId d = r"
      "msg_timestamp d < msg_timestamp (last hot)" "d \<notin> set arch"
    then have "?P d" by (simp add: mongo_query_def)
    from mongo_find_newest [OF d(1) this d(4) [unfolded assms(9)]] n
    show "int (length arch) = ?n \<and> (\<forall>a\<in>set arch. msg_timestamp d \<le> msg_timestamp a)"
      unfolding assms(9) by simp
  qed
  from 0 1 2 3 4 show ?thesis by blast
qed

text \<open>
  Claim C2, as the code has it. In a reachable state, take a combined-mode read (no
  \<open>source\<close>, no \<open>before\<close> cursor) whose cache slice \<open>hot\<close> is shorter than the limit.
  The page holds the cache slice and the archive portion \<open>arch\<close> and nothing else, each
  as often as it was fetched: nothing is removed as a duplicate. Every document of the
  archive portion is a stored document of the room and strictly older than every returned
  cache entry. The portion has at most limit minus \<open>length hot\<close> documents and, when the
  cache slice is not empty, it takes the newest ones below the last cache entry: a stored
  document of the room older than that entry is left out only when the portion is full,
  and is then no newer than any document in it. Stored documents at or after the timestamp
  of the last cache entry are not fetched.
\<close>

theorem combined_read_boundary:
  assumes "reach t s" and "r \<in> rooms s"
    and "q_source q \<noteq> Some ''redis''" and "q_source q \<noteq> Some ''mongodb''"
    and "cursor (q_before q) = None"
    and "hot = redis_lrange s r 0 (parsedLimit q - 1)"
    and "int (length hot) < parsedLimit q"
    and "arch = (if hot = []
                 then mongo_find (mongo_query r None (cursor (q_after q))) (parsedLimit q)
                        (archive s)
                 else mongo_find (mongo_query r (Some (msg_timestamp (last hot))) None)
                        (parsedLimit q - int (length hot)) (archive s))"
  shows "\<exists>resp. getMessages s r q = Inr resp
       \<and> mset (hr_messages resp)
           = mset (map (tag ''redis'') hot) + mset (map (tag ''mongodb'') arch)
       \<and> (\<forall>d\<in>set arch. d \<in> set (archive s) \<and> msg_roomId d = r
             \<and> (\<forall>m\<in>set hot. msg_timestamp d < msg_timestamp m))
       \<and> int (length arch) \<le> parsedLimit q - int (length hot)
       \<and> (hot \<noteq> [] \<longrightarrow>
            (\<forall>d\<in>set (archive s).
               msg_roomId d = r \<and> msg_timestamp d < msg_timestamp (last hot) \<and> d \<notin> set arch \<longrightarrow>
                 int (length arch) = parsedLimit q - int (length hot)
               \<and> (\<forall>a\<in>set arch. msg_timestamp d \<le> msg_timestamp a)))"
proof (cases "hot = []")
  case False
  then have arch: "arch = mongo_find (mongo_query r (Some (msg_timestamp (last hot))) None)
                        (parsedLimit q - int (length hot)) (archive s)"
    by (simp add: assms(8))
  from combined_read_nonempty [OF assms(1-6) False assms(7) arch] False
  show ?thesis by blast
next
  case True
  let ?resp = "projr (getMessages s r q)"
  from True have arch: "arch = mongo_find (mongo_query r None (cursor (q_after q))) (parsedLimit q)
                        (archive s)"
    by (simp add: assms(8))
  from assms(7) True have n: "0 < parsedLimit q" by simp
  note eq = getMessages_found [OF assms(2), of q]
  have 0: "getMessages s r q = Inr ?resp" unfolding eq by simp
  have m: "hr_messages ?resp = sort_page (fetch_messages s r q)" unfolding eq by simp
  have f: "fetch_messages s r q = map (tag ''mongodb'') arch"
    using assms(3-5) assms(6) [symmetric] True n
    by (simp add: fetch_messages_def Let_def arch)
  have 1: "mset (hr_messages ?resp)
           = mset (map (tag ''redis'') hot) + mset (map (tag ''mongodb'') arch)"
    unfolding m f by (simp add: True)
  have 2: "\<forall>d\<in>set arch. d \<in> set (archive s) \<and> msg_roomId d = r
             \<and> (\<forall>m\<in>set hot. msg_timestamp d < msg_timestamp m)"
  proof
    fix d assume "d \<in> set arch"
    then have "d \<in> set (archive s) \<and> mongo_query r None (cursor (q_after q)) d"
      unfolding arch by (rule mongo_find_subset)
    then show "d \<in> set (archive s) \<and> msg_roomId d = r
             \<and> (\<forall>m\<in>set hot. msg_timestamp d < msg_timestamp m)"
      by (simp add: mongo_query_def True)
  qed
  have 3: "int (length arch) \<le> parsedLimit q - int (length hot)"
    using mongo_find_length [of "parsedLimit q" "mongo_query r None (cursor (q_after q))" "archive s"]
      n unfolding arch by (simp add: True)
  from 0 1 2 3 True show ?thesis by blast
qed

text \<open>Claim C2 at the end of the concrete run, for the default query on \<open>general\<close>.\<close>

theorem combined_read_boundary_witness:
  "reach 20000 final_state \<and> ''general'' \<in> rooms final_state
   \<and> q_source default_query = None \<and> cursor (q_before default_query) = None
   \<and> parsedLimit default_query = 50
   \<and> redis_lrange final_state ''general'' 0 (parsedLimit default_query - 1)
       = [hi_message 20000 ''m2'', hi_message 10000 ''m1'']
   \<and> mset (page_of final_state ''general'' default_query)
       = mset [tag ''redis'' (hi_message 20000 ''m2''), tag ''redis'' (hi_message 10000 ''m1''),
               tag ''mongodb'' (join_notice 5000 ''j1''), tag ''mongodb'' (join_notice 5000 ''j1'')]"
proof -
  let ?hot = "[hi_message 20000 ''m2'', hi_message 10000 ''m1'']"
  let ?arch = "[join_notice 5000 ''j1'', join_notice 5000 ''j1'']"
  have q: "q_source default_query \<noteq> Some ''redis''" "q_source default_query \<noteq> Some ''mongodb''"
    "cursor (q_before default_query) = None" "q_source default_query = None"
    by (simp_all add: default_query_def cursor_def)
  have lim: "parsedLimit default_query = 50"
    by (simp add: parsedLimit_def default_query_def MAX_MESSAGES_PER_ROOM_def)
  have ne: "?hot \<noteq> []" by simp
  have lt: "int (length ?hot) < parsedLimit default_query" by (simp add: lim)
  have arch: "?arch = (if ?hot = []
                 then mongo_find (mongo_query ''general'' None (cursor (q_after default_query)))
                        (parsedLimit default_query) (archive final_state)
                 else mongo_find (mongo_query ''general'' (Some (msg_timestamp (last ?hot))) None)
                        (parsedLimit default_query - int (length ?hot)) (archive final_state))"
    using final_arch by simp
  from combined_read_boundary [OF reach_final general_room q(1,2,3) final_hot [symmetric] lt arch]
  obtain resp where g: "getMessages final_state ''general'' default_query = Inr resp"
    and ms: "mset (hr_messages resp) = mset (map (tag ''redis'') ?hot) + mset (map (tag ''mongodb'') ?arch)"
    by blast
  from g have "page_of final_state ''general'' default_query = hr_messages resp"
    by (simp add: page_of_def)
  with ms have "mset (page_of final_state ''general'' default_query)
       = mset [tag ''redis'' (hi_message 20000 ''m2''), tag ''redis'' (hi_message 10000 ''m1''),
               tag ''mongodb'' (join_notice 5000 ''j1''), tag ''mongodb'' (join_notice 5000 ''j1'')]"
    by simp
  with reach_final general_room q(4,3) lim final_hot show ?thesis by blast
qed

text \<open>
  Claim C2 as stated says that the page holds no message id twice and no gap between
  its oldest and newest entries. At the end of the concrete run, which is reachable, the
  default read of \<open>general\<close> gets two cache entries, fewer than the limit 50; the page
  holds the id \<open>j1\<close> twice, and the stored join notice \<open>j2\<close> of the room, stamped 15000
  between the page's oldest (5000) and newest (20000) entries, is not in the page.
\<close>

theorem combined_read_gap_and_duplicate_counterexample:
  "reach 20000 final_state
   \<and> q_source default_query = None \<and> q_before default_query = None
   \<and> parsedLimit default_query = 50
   \<and> length (redis_lrange final_state ''general'' 0 (parsedLimit default_query - 1)) = 2
   \<and> map (msg_id \<circ> pm_message) (page_of final_state ''general'' default_query)
       = [''m2'', ''m1'', ''j1'', ''j1'']
   \<and> map pm_source (page_of final_state ''general'' default_query)
       = [''redis'', ''redis'', ''mongodb'', ''mongodb'']
   \<and> map pm_timestamp (page_of final_state ''general'' default_query)
       = [20000, 10000, 5000, 5000]
   \<and> \<not> distinct (map (msg_id \<circ> pm_message) (page_of final_state ''general'' default_query))
   \<and> join_notice 15000 ''j2'' \<in> set (archive final_state)
   \<and> msg_roomId (join_notice 15000 ''j2'') = ''general''
   \<and> msg_timestamp (join_notice 15000 ''j2'') = 15000
   \<and> join_notice 15000 ''j2'' \<notin> set (map pm_message (page_of final_state ''general'' default_query))"
proof -
  have "q_source default_query = None \<and> q_before default_query = None
   \<and> parsedLimit default_query = 50
   \<and> length (redis_lrange final_state ''general'' 0 (parsedLimit default_query - 1)) = 2
   \<and> map (msg_id \<circ> pm_message) (page_of final_state ''general'' default_query)
       = [''m2'', ''m1'', ''j1'', ''j1'']
   \<and> map pm_source (page_of final_state ''general'' default_query)
       = [''redis'', ''redis'', ''mongodb'', ''mongodb'']
   \<and> map pm_timestamp (page_of final_state ''general'' default_query)
       = [20000, 10000, 5000, 5000]
   \<and> \<not> distinct (map (msg_id \<circ> pm_message) (page_of final_state ''general'' default_query))
   \<and> join_notice 15000 ''j2'' \<in> set (archive final_state)
   \<and> msg_roomId (join_notice 15000 ''j2'') = ''general''
   \<and> msg_timestamp (join_notice 15000 ''j2'') = 15000
   \<and> join_notice 15000 ''j2'' \<notin> set (map pm_message (page_of final_state ''general'' default_query))"
    by code_simp
  with reach_final show ?thesis by (rule conjI)
qed

text \<open>
  Claim C3, as the code has it. Every read of an existing room answers with the fetched
  messages sorted by timestamp, newest first, messages with equal timestamps staying in
  the order in which they were fetched; \<open>count\<close> is the number of messages,
  \<open>hasMore\<close> says whether that number equals the parsed limit, and \<open>oldest\<close> and
  \<open>newest\<close> are the least and greatest timestamp of the page, absent when it is empty.
\<close>

theorem history_page_sorted:
  assumes "r \<in> rooms s"
  shows "\<exists>resp. getMessages s r q = Inr resp
     \<and> sorted_wrt (\<lambda>a b. pm_timestamp b \<le> pm_timestamp a) (hr_messages resp)
     \<and> mset (hr_messages resp) = mset (fetch_messages s r q)
     \<and> (\<forall>t. filter (\<lambda>p. pm_timestamp p = t) (hr_messages resp)
            = filter (\<lambda>p. pm_timestamp p = t) (fetch_messages s r q))
     \<and> pg_count (hr_pagination resp) = length (hr_messages resp)
     \<and> pg_hasMore (hr_pagination resp) = (int (length (hr_messages resp)) = parsedLimit q)
     \<and> (hr_messages resp = [] \<longrightarrow>
           pg_oldest (hr_pagination resp) = None \<and> pg_newest (hr_pagination resp) = None)
     \<and> (hr_messages resp \<noteq> [] \<longrightarrow>
           pg_oldest (hr_pagination resp) = Some (Min (pm_timestamp ` set (hr_messages resp)))
         \<and> pg_newest (hr_pagination resp) = Some (Max (pm_timestamp ` set (hr_messages resp))))"
proof -
  let ?resp = "projr (getMessages s r q)"
  note eq = getMessages_found [OF assms, of q]
  have m: "hr_messages ?resp = sort_page (fetch_messages s r q)" unfolding eq by simp
  have e: "(hr_messages ?resp = []) = (fetch_messages s r q = [])"
    unfolding m by simp
  have 0: "getMessages s r q = Inr ?resp" unfolding eq by simp
  have 1: "sorted_wrt (\<lambda>a b. pm_timestamp b \<le> pm_timestamp a) (hr_messages ?resp)"
    unfolding m by (rule sort_page_sorted)
  have 2: "mset (hr_messages ?resp) = mset (fetch_messages s r q)"
    unfolding m by simp
  have 3: "\<forall>t. filter (\<lambda>p. pm_timestamp p = t) (hr_messages ?resp)
            = filter (\<lambda>p. pm_timestamp p = t) (fetch_messages s r q)"
    unfolding m by (simp add: sort_page_stable)
  have 4: "pg_count (hr_pagination ?resp) = length (hr_messages ?resp)"
    unfolding m unfolding eq by simp
  have 5: "pg_hasMore (hr_pagination ?resp) = (int (length (hr_messages ?resp)) = parsedLimit q)"
    unfolding m unfolding eq by simp
  have 6: "hr_messages ?resp = [] \<longrightarrow>
           pg_oldest (hr_pagination ?resp) = None \<and> pg_newest (hr_pagination ?resp) = None"
    unfolding e unfolding eq by simp
  have 7: "hr_messages ?resp \<noteq> [] \<longrightarrow>
           pg_oldest (hr_pagination ?resp) = Some (Min (pm_timestamp ` set (hr_messages ?resp)))
         \<and> pg_newest (hr_pagination ?resp) = Some (Max (pm_timestamp ` set (hr_messages ?resp)))"
    unfolding e m unfolding eq by simp
  from 0 1 2 3 4 5 6 7 show ?thesis by blast
qed

text \<open>Claim C3 at the end of the concrete run, for the default query on \<open>general\<close>.\<close>

theorem history_page_sorted_witness:
  "''general'' \<in> rooms final_state
   \<and> sorted_wrt (\<lambda>a b. pm_timestamp b \<le> pm_timestamp a)
        (page_of final_state ''general'' default_query)
   \<and> map pm_timestamp (page_of final_state ''general'' default_query) = [20000, 10000, 5000, 5000]
   \<and> hr_pagination (projr (getMessages final_state ''general'' default_query))
       = \<lparr>pg_count = 4, pg_hasMore = False, pg_oldest = Some 5000, pg_newest = Some 20000\<rparr>"
proof -
  from history_page_sorted [OF general_room, of default_query]
  obtain resp where g: "getMessages final_state ''general'' default_query = Inr resp"
    and s: "sorted_wrt (\<lambda>a b. pm_timestamp b \<le> pm_timestamp a) (hr_messages resp)"
    by blast
  from g have "page_of final_state ''general'' default_query = hr_messages resp"
    by (simp add: page_of_def)
  with s have 1: "sorted_wrt (\<lambda>a b. pm_timestamp b \<le> pm_timestamp a)
        (page_of final_state ''general'' default_query)"
    by simp
  have 2: "map pm_timestamp (page_of final_state ''general'' default_query)
             = [20000, 10000, 5000, 5000]"
    by code_simp
  have 3: "hr_pagination (projr (getMessages final_state ''general'' default_query))
       = \<lparr>pg_count = 4, pg_hasMore = False, pg_oldest = Some 5000, pg_newest = Some 20000\<rparr>"
    by code_simp
  from general_room 1 2 3 show ?thesis by blast
qed

text \<open>
  Claim C3 as stated says that equal timestamps are ordered by message id. Two messages
  sent in the same millisecond come back in the reverse of the order in which they were
  sent, whatever their ids: with ids \<open>a\<close> then \<open>b\<close> the page is not in ascending id order,
  with ids \<open>b\<close> then \<open>a\<close> it is not in descending id order.
\<close>

theorem tie_break_counterexample:
  "admissible_run 0 (startup 0) (same_instant_run ''a'' ''b'')
   \<and> admissible_run 0 (startup 0) (same_instant_run ''b'' ''a'')
   \<and> map pm_timestamp (page_of (same_instant ''a'' ''b'') ''general'' default_query)
       = [10000, 10000]
   \<and> map (msg_id \<circ> pm_message) (page_of (same_instant ''a'' ''b'') ''general'' default_query)
       = [''b'', ''a'']
   \<and> \<not> by_time_then_id (\<le>) (page_of (same_instant ''a'' ''b'') ''general'' default_query)
   \<and> map pm_timestamp (page_of (same_instant ''b'' ''a'') ''general'' default_query)
       = [10000, 10000]
   \<and> map (msg_id \<circ> pm_message) (page_of (same_instant ''b'' ''a'') ''general'' default_query)
       = [''a'', ''b'']
   \<and> \<not> by_time_then_id (\<ge>) (page_of (same_instant ''b'' ''a'') ''general'' default_query)"
  by code_simp

section \<open>The room hub\<close>

lemma set_add_set [simp]: "set (set_add x xs) = insert x (set xs)"
  by (auto simp: set_add_def)

lemma set_delete_set [simp]: "set (set_delete x xs) = set xs - {x}"
  by (auto simp: set_delete_def)

lemma set_add_Nil [simp]: "set_add x xs \<noteq> []"
  by (auto simp: set_add_def)

lemma joined_cong: "clients s' = clients s \<Longrightarrow> joined s' = joined s"
  by (rule ext) (simp add: joined_def)

lemma joined_sendToClient [simp]: "joined (sendToClient s c f) = joined s"
  by (rule ext) (simp add: joined_def sendToClient_def split: option.splits)

lemma joined_fold_sendToClient [simp]:
  "joined (fold (\<lambda>c s'. sendToClient s' c f) cs s) = joined s"
  by (induction cs arbitrary: s) simp_all

lemma joined_sendRoomHistory [simp]: "joined (sendRoomHistory s c r) = joined s"
  by (simp add: sendRoomHistory_def Let_def)

lemma joined_Some: "clients s c = Some client \<Longrightarrow> joined s c = c_rooms client"
  by (simp add: joined_def)

lemma joined_member:
  assumes "r \<in> set (joined s c)"
  obtains client where "clients s c = Some client" "r \<in> set (c_rooms client)"
  using assms by (cases "clients s c") (simp_all add: joined_def)

lemma handleLeaveRoom_noop:
  assumes "r \<notin> set (joined s c)"
  shows "handleLeaveRoom s e c r = s"
proof (cases "clients s c")
  case None
  then show ?thesis by (simp add: handleLeaveRoom_unfold)
next
  case (Some client)
  with assms show ?thesis by (simp add: handleLeaveRoom_unfold joined_def)
qed

lemma leave_clients:
  assumes "clients s c = Some client" "r \<in> set (c_rooms client)"
  shows "clients (handleLeaveRoom s e c r)
           = (clients s)(c \<mapsto> client\<lparr>c_rooms := set_delete r (c_rooms client)\<rparr>)"
  using assms by (simp add: handleLeaveRoom_unfold Let_def split: option.splits)

lemma leave_joined:
  assumes "r \<in> set (joined s c)"
  shows "joined (handleLeaveRoom s e c r) = (joined s)(c := set_delete r (joined s c))"
proof -
  from assms obtain client where cl: "clients s c = Some client" "r \<in> set (c_rooms client)"
    by (rule joined_member)
  show ?thesis
    by (rule ext) (simp add: joined_def leave_clients [OF cl] cl(1))
qed

lemma leave_created [simp]:
  "consumers_created (handleLeaveRoom s e c r) = consumers_created s"
  by (simp add: handleLeaveRoom_unfold Let_def split: option.splits)

lemma leave_no_entry:
  assumes "r \<in> set (joined s c)" "roomConsumers s r = None"
  shows "roomConsumers (handleLeaveRoom s e c r) = roomConsumers s"
    and "consumers_connected (handleLeaveRoom s e c r) = consumers_connected s"
proof -
  from assms(1) obtain client where cl: "clients s c = Some client" "r \<in> set (c_rooms client)"
    by (rule joined_member)
  with assms(2) show "roomConsumers (handleLeaveRoom s e c r) = roomConsumers s"
    and "consumers_connected (handleLeaveRoom s e c r) = consumers_connected s"
    by (simp_all add: handleLeaveRoom_unfold Let_def)
qed

lemma leave_last:
  assumes "r \<in> set (joined s c)" "roomConsumers s r = Some d"
    "set_delete c (rc_subscribers d) = []"
  shows "roomConsumers (handleLeaveRoom s e c r) = (roomConsumers s)(r := None)"
    and "consumers_connected (handleLeaveRoom s e c r)
           = (if disconnect_ok e then consumers_connected s - {rc_consumer d}
              else consumers_connected s)"
proof -
  from assms(1) obtain client where cl: "clients s c = Some client" "r \<in> set (c_rooms client)"
    by (rule joined_member)
  with assms(2,3) show "roomConsumers (handleLeaveRoom s e c r) = (roomConsumers s)(r := None)"
    and "consumers_connected (handleLeaveRoom s e c r)
           = (if disconnect_ok e then consumers_connected s - {rc_consumer d}
              else consumers_connected s)"
    by (simp_all add: handleLeaveRoom_unfold Let_def)
qed

lemma leave_more:
  assumes "r \<in> set (joined s c)" "roomConsumers s r = Some d"
    "set_delete c (rc_subscribers d) \<noteq> []"
  shows "roomConsumers (handleLeaveRoom s e c r)
           = (roomConsumers s)(r \<mapsto> d\<lparr>rc_subscribers := set_delete c (rc_subscribers d)\<rparr>)"
    and "consumers_connected (handleLeaveRoom s e c r) = consumers_connected s"
proof -
  from assms(1) obtain client where cl: "clients s c = Some client" "r \<in> set (c_rooms client)"
    by (rule joined_member)
  with assms(2,3) show "roomConsumers (handleLeaveRoom s e c r)
           = (roomConsumers s)(r \<mapsto> d\<lparr>rc_subscribers := set_delete c (rc_subscribers d)\<rparr>)"
    and "consumers_connected (handleLeaveRoom s e c r) = consumers_connected s"
    by (simp_all add: handleLeaveRoom_unfold Let_def)
qed

lemma set_delete_Nil: "set_delete x xs = [] \<longleftrightarrow> set xs \<subseteq> {x}"
  by (auto simp: set_delete_def filter_empty_conv)

lemma hub_ok_entry:
  assumes "hub_ok rc jn n cn" "r \<in> set (jn c)"
  obtains d where "rc r = Some d" "c \<in> set (rc_subscribers d)"
  using assms unfolding hub_ok_def by blast

lemma hub_ok_grow:
  assumes "hub_ok rc jn n cn" "n \<le> n'" "cn \<subseteq> cn'"
  shows "hub_ok rc jn n' cn'"
  using assms unfolding hub_ok_def by (meson less_le_trans subsetD)

lemma hub_ok_leave_last:
  assumes ok: "hub_ok rc jn n cn" and e: "rc r = Some d" and c: "c \<in> set (rc_subscribers d)"
    and last: "set (rc_subscribers d) \<subseteq> {c}"
    and cn': "cn' = cn \<or> cn' = cn - {rc_consumer d}"
  shows "hub_ok (rc(r := None)) (jn(c := set_delete r (jn c))) n cn'"
  unfolding hub_ok_def
proof (intro conjI allI impI)
  fix r' d'
  assume a: "(rc(r := None)) r' = Some d'"
  then have r': "r' \<noteq> r" and e': "rc r' = Some d'" by (auto split: if_splits)
  from ok e' have p: "rc_subscribers d' \<noteq> []" "rc_consumer d' \<in> cn" "rc_consumer d' < n"
    unfolding hub_ok_def by blast+
  from ok e e' r' have "rc_consumer d' \<noteq> rc_consumer d" unfolding hub_ok_def by blast
  with p cn' show "rc_subscribers d' \<noteq> []" "rc_consumer d' \<in> cn'" "rc_consumer d' < n"
    by auto
next
  fix r' c'
  have old: "r' \<in> set (jn c') \<longleftrightarrow> (\<exists>d. rc r' = Some d \<and> c' \<in> set (rc_subscribers d))"
    using ok unfolding hub_ok_def by blast
  show "r' \<in> set ((jn(c := set_delete r (jn c))) c')
          \<longleftrightarrow> (\<exists>d. (rc(r := None)) r' = Some d \<and> c' \<in> set (rc_subscribers d))"
  proof (cases "r' = r")
    case True
    have "r \<notin> set (jn c')" if "c' \<noteq> c"
      using old [unfolded True] e last that by auto
    then show ?thesis using True by auto
  next
    case False
    then show ?thesis using old by auto
  qed
next
  fix r1 r2 d1 d2
  assume "(rc(r := None)) r1 = Some d1 \<and> (rc(r := None)) r2 = Some d2
            \<and> rc_consumer d1 = rc_consumer d2"
  then have "rc r1 = Some d1 \<and> rc r2 = Some d2 \<and> rc_consumer d1 = rc_consumer d2"
    by (auto split: if_splits)
  with ok show "r1 = r2" unfolding hub_ok_def by blast
qed

lemma hub_ok_resubscribe:
  assumes ok: "hub_ok rc jn n cn" and e: "rc r = Some d"
    and subs: "subs \<noteq> []"
    and jn': "\<And>r' c'. r' \<in> set (jn' c') \<longleftrightarrow>
                 (if r' = r then c' \<in> set subs
                  else r' \<in> set (jn c'))"
  shows "hub_ok (rc(r \<mapsto> d\<lparr>rc_subscribers := subs\<rparr>)) jn' n cn"
  unfolding hub_ok_def
proof (intro conjI allI impI)
  fix r' d'
  assume a: "(rc(r \<mapsto> d\<lparr>rc_subscribers := subs\<rparr>)) r' = Some d'"
  show "rc_subscribers d' \<noteq> []" "rc_consumer d' \<in> cn" "rc_consumer d' < n"
    using a ok e subs unfolding hub_ok_def by (auto split: if_splits)
next
  fix r' c'
  have old: "r' \<in> set (jn c') \<longleftrightarrow> (\<exists>d. rc r' = Some d \<and> c' \<in> set (rc_subscribers d))"
    using ok unfolding hub_ok_def by blast
  show "r' \<in> set (jn' c')
          \<longleftrightarrow> (\<exists>d'. (rc(r \<mapsto> d\<lparr>rc_subscribers := subs\<rparr>)) r' = Some d'
                    \<and> c' \<in> set (rc_subscribers d'))"
    unfolding jn' using old by auto
next
  fix r1 r2 d1 d2
  assume a: "(rc(r \<mapsto> d\<lparr>rc_subscribers := subs\<rparr>)) r1 = Some d1
           \<and> (rc(r \<mapsto> d\<lparr>rc_subscribers := subs\<rparr>)) r2 = Some d2
           \<and> rc_consumer d1 = rc_consumer d2"
  then have "\<exists>e1 e2. rc r1 = Some e1 \<and> rc r2 = Some e2 \<and> rc_consumer e1 = rc_consumer e2"
    using e by (auto split: if_splits)
  with ok show "r1 = r2" unfolding hub_ok_def by blast
qed

lemma hub_ok_new_entry:
  assumes ok: "hub_ok rc jn n cn" and e: "rc r = None"
  shows "hub_ok (rc(r \<mapsto> \<lparr>rc_consumer = n, rc_subscribers = set_add c []\<rparr>))
           (jn(c := set_add r (jn c))) (Suc n) (insert n cn)"
  unfolding hub_ok_def
proof (intro conjI allI impI)
  fix r' d'
  assume a: "(rc(r \<mapsto> \<lparr>rc_consumer = n, rc_subscribers = set_add c []\<rparr>)) r' = Some d'"
  show "rc_subscribers d' \<noteq> []" "rc_consumer d' \<in> insert n cn" "rc_consumer d' < Suc n"
    using a ok unfolding hub_ok_def by (auto split: if_splits simp: less_Suc_eq)
next
  fix r' c'
  have old: "r' \<in> set (jn c') \<longleftrightarrow> (\<exists>d. rc r' = Some d \<and> c' \<in> set (rc_subscribers d))"
    using ok unfolding hub_ok_def by blast
  show "r' \<in> set ((jn(c := set_add r (jn c))) c')
          \<longleftrightarrow> (\<exists>d'. (rc(r \<mapsto> \<lparr>rc_consumer = n, rc_subscribers = set_add c []\<rparr>)) r' = Some d'
                    \<and> c' \<in> set (rc_subscribers d'))"
    using old e by (auto simp: set_add_def)
next
  fix r1 r2 d1 d2
  assume a: "(rc(r \<mapsto> \<lparr>rc_consumer = n, rc_subscribers = set_add c []\<rparr>)) r1 = Some d1
           \<and> (rc(r \<mapsto> \<lparr>rc_consumer = n, rc_subscribers = set_add c []\<rparr>)) r2 = Some d2
           \<and> rc_consumer d1 = rc_consumer d2"
  have lt: "rc_consumer d' < n" if "rc r' = Some d'" for r' d'
    using ok that unfolding hub_ok_def by blast
  show "r1 = r2"
  proof (cases "r1 = r")
    case True
    with a have "rc_consumer d1 = n" by auto
    with a lt [of r2 d2] show ?thesis using True by (auto split: if_splits)
  next
    case False
    with a have e1: "rc r1 = Some d1" by simp
    show ?thesis
    proof (cases "r2 = r")
      case True
      with a have "rc_consumer d2 = n" by auto
      with a lt [OF e1] show ?thesis by simp
    next
      case r2: False
      with a have "rc r2 = Some d2" by simp
      with e1 a ok show ?thesis unfolding hub_ok_def by blast
    qed
  qed
qed

lemma hub_inv_cong:
  assumes "roomConsumers s' = roomConsumers s" "joined s' = joined s"
    "consumers_created s' = consumers_created s" "consumers_connected s' = consumers_connected s"
  shows "hub_inv s' = hub_inv s"
  using assms by (simp add: hub_inv_def)

lemma hub_inv_sendToClient [simp]: "hub_inv (sendToClient s c f) = hub_inv s"
  by (rule hub_inv_cong) simp_all

lemma hub_inv_leave:
  assumes "hub_inv s"
  shows "hub_inv (handleLeaveRoom s e c r)"
proof (cases "r \<in> set (joined s c)")
  case False
  then show ?thesis using assms by (simp add: handleLeaveRoom_noop)
next
  case True
  let ?s' = "handleLeaveRoom s e c r"
  from assms have ok: "hub_ok (roomConsumers s) (joined s) (consumers_created s) (consumers_connected s)"
    by (simp add: hub_inv_def)
  from ok True obtain d where d: "roomConsumers s r = Some d" "c \<in> set (rc_subscribers d)"
    by (rule hub_ok_entry)
  show ?thesis
  proof (cases "set_delete c (rc_subscribers d) = []")
    case last: True
    then have sub: "set (rc_subscribers d) \<subseteq> {c}" by (simp add: set_delete_Nil)
    have cn: "consumers_connected ?s' = consumers_connected s
              \<or> consumers_connected ?s' = consumers_connected s - {rc_consumer d}"
      by (simp add: leave_last(2) [OF True d(1) last])
    from hub_ok_leave_last [OF ok d sub cn]
    show ?thesis
      by (simp add: hub_inv_def leave_last(1) [OF True d(1) last] leave_joined [OF True])
  next
    case more: False
    have jn: "r' \<in> set (((joined s)(c := set_delete r (joined s c))) c') \<longleftrightarrow>
                 (if r' = r then c' \<in> set (set_delete c (rc_subscribers d))
                  else r' \<in> set (joined s c'))" for r' c'
      using ok d(1) unfolding hub_ok_def by auto
    have "hub_ok ((roomConsumers s)(r \<mapsto> d\<lparr>rc_subscribers := set_delete c (rc_subscribers d)\<rparr>))
            ((joined s)(c := set_delete r (joined s c)))
            (consumers_created s) (consumers_connected s)"
      using ok d(1) more jn by (rule hub_ok_resubscribe)
    then show ?thesis
      by (simp add: hub_inv_def leave_more [OF True d(1) more] leave_joined [OF True])
  qed
qed

lemma hub_inv_leave_rooms:
  "hub_inv s \<Longrightarrow> hub_inv (leave_rooms s env c rs)"
  by (induction rs arbitrary: s) (simp_all add: hub_inv_leave)

lemma joined_leave_self:
  "joined (handleLeaveRoom s e c r) c = set_delete r (joined s c)"
proof (cases "r \<in> set (joined s c)")
  case True
  then show ?thesis by (simp add: leave_joined)
next
  case False
  then have "set_delete r (joined s c) = joined s c"
    by (auto simp: set_delete_def filter_id_conv)
  with False show ?thesis by (simp add: handleLeaveRoom_noop)
qed

lemma joined_leave_rooms:
  "joined (leave_rooms s env c rs) c = filter (\<lambda>x. x \<notin> set rs) (joined s c)"
proof (induction rs arbitrary: s)
  case Nil
  show ?case by simp
next
  case (Cons r rs)
  have "filter (\<lambda>x. x \<notin> set rs) (set_delete r (joined s c))
          = filter (\<lambda>x. x \<notin> set (r # rs)) (joined s c)"
    by (auto simp: set_delete_def intro: filter_cong)
  then show ?case by (simp add: Cons.IH joined_leave_self)
qed

lemma hub_inv_on_close:
  assumes "hub_inv s"
  shows "hub_inv (on_close s env c)"
proof (cases "clients s c")
  case None
  then show ?thesis using assms by (simp add: on_close_def)
next
  case (Some client)
  let ?s1 = "leave_rooms s env c (c_rooms client)"
  have inv1: "hub_inv ?s1" using assms by (rule hub_inv_leave_rooms)
  have "joined ?s1 c = filter (\<lambda>x. x \<notin> set (c_rooms client)) (c_rooms client)"
    by (simp add: joined_leave_rooms joined_Some [OF Some])
  then have empty: "joined ?s1 c = []" by simp
  have "joined (?s1\<lparr>clients := (clients ?s1)(c := None)\<rparr>) = joined ?s1"
  proof (rule ext)
    fix c'
    show "joined (?s1\<lparr>clients := (clients ?s1)(c := None)\<rparr>) c' = joined ?s1 c'"
      using empty by (cases "c' = c") (simp_all add: joined_def)
  qed
  then have "hub_inv (?s1\<lparr>clients := (clients ?s1)(c := None)\<rparr>) = hub_inv ?s1"
    by (intro hub_inv_cong) simp_all
  with inv1 show ?thesis by (simp add: on_close_def Some Let_def)
qed

lemma hub_inv_on_connection:
  assumes "hub_inv s" "clients s (io_uuid e) = None"
  shows "hub_inv (fst (on_connection s e tok))"
proof (cases "wsAuthenticate s (io_now e) tok")
  case None
  then show ?thesis using assms by (simp add: on_connection_def)
next
  case (Some user)
  let ?s1 = "s\<lparr>clients := (clients s)(io_uuid e \<mapsto>
               \<lparr>c_user = user, c_rooms = [], c_open = True, c_sent = []\<rparr>)\<rparr>"
  have "joined ?s1 = joined s"
  proof (rule ext)
    fix c'
    show "joined ?s1 c' = joined s c'"
      using assms(2) by (cases "c' = io_uuid e") (simp_all add: joined_def)
  qed
  then have "hub_inv ?s1 = hub_inv s" by (intro hub_inv_cong) simp_all
  with assms(1) show ?thesis by (simp add: on_connection_def Some Let_def)
qed

lemma joined_producer_send [simp]: "joined (producer_send s t m) = joined s"
  by (rule joined_cong) simp

lemma hub_inv_producer_send [simp]: "hub_inv (producer_send s t m) = hub_inv s"
  by (rule hub_inv_cong) simp_all

lemma hub_inv_sendRoomHistory [simp]: "hub_inv (sendRoomHistory s c r) = hub_inv s"
  by (rule hub_inv_cong) simp_all

lemma getOrCreate_existing:
  assumes "roomConsumers s r = Some d"
  shows "getOrCreateRoomConsumer s e r = (s, Some d)"
  using assms by (simp add: getOrCreateRoomConsumer_unfold)

lemma getOrCreate_new:
  assumes "roomConsumers s r = None" "broker_ok e"
  shows "getOrCreateRoomConsumer s e r =
           (s\<lparr>consumers_created := Suc (consumers_created s),
              consumers_connected := insert (consumers_created s) (consumers_connected s),
              roomConsumers := (roomConsumers s)(r \<mapsto>
                 \<lparr>rc_consumer = consumers_created s, rc_subscribers = []\<rparr>)\<rparr>,
            Some \<lparr>rc_consumer = consumers_created s, rc_subscribers = []\<rparr>)"
  using assms by (simp add: getOrCreateRoomConsumer_unfold broker_ok_def Let_def)

lemma getOrCreate_failed:
  assumes "roomConsumers s r = None" "\<not> broker_ok e"
  shows "getOrCreateRoomConsumer s e r =
           (s\<lparr>consumers_created := Suc (consumers_created s),
              consumers_connected :=
                (if connect_ok e then insert (consumers_created s) (consumers_connected s)
                 else consumers_connected s)\<rparr>, None)"
  using assms by (auto simp: getOrCreateRoomConsumer_unfold broker_ok_def Let_def)

lemma join_continues:
  assumes "clients s c = Some client" "r \<in> rooms s" "r \<notin> set (c_rooms client)"
    "getOrCreateRoomConsumer s e r = (s1, Some d)"
  shows "fst (handleJoinRoom s e c u r) =
           (if send_ok e
            then producer_send (sendRoomHistory (subscribed s1 c client r d) c r)
                   (TOPIC_PREFIX @ r) (system_notice r (p_name u @ '' has joined the room'') e)
            else sendRoomHistory (subscribed s1 c client r d) c r)"
  using assms by (simp add: handleJoinRoom_unfold Let_def subscribed_def)

lemma join_stops:
  assumes "clients s c = Some client" "r \<in> rooms s" "r \<notin> set (c_rooms client)"
    "getOrCreateRoomConsumer s e r = (s1, None)"
  shows "handleJoinRoom s e c u r = (s1, Thrown)"
  using assms by (simp add: handleJoinRoom_unfold)

lemma join_refused:
  assumes "clients s c = None \<or> r \<notin> rooms s \<or> r \<in> set (joined s c)"
  shows "hub_inv (fst (handleJoinRoom s e c u r)) = hub_inv s"
proof (cases "clients s c")
  case None
  then show ?thesis by (simp add: handleJoinRoom_unfold)
next
  case (Some client)
  with assms have "r \<notin> rooms s \<or> r \<in> set (c_rooms client)" by (simp add: joined_def)
  with Some show ?thesis by (auto simp: handleJoinRoom_unfold)
qed

lemma joined_subscribed:
  assumes "clients s1 c = Some client"
  shows "joined (subscribed s1 c client r d) = (joined s1)(c := set_add r (joined s1 c))"
  by (rule ext) (simp add: joined_def subscribed_def assms)

lemma subscribed_frame [simp]:
  "roomConsumers (subscribed s1 c client r d)
     = (roomConsumers s1)(r \<mapsto> d\<lparr>rc_subscribers := set_add c (rc_subscribers d)\<rparr>)"
  "consumers_created (subscribed s1 c client r d) = consumers_created s1"
  "consumers_connected (subscribed s1 c client r d) = consumers_connected s1"
  by (simp_all add: subscribed_def)

lemma hub_inv_subscribed_existing:
  assumes inv: "hub_inv s" and cl: "clients s c = Some client" and r: "r \<notin> set (c_rooms client)"
    and d: "roomConsumers s r = Some d"
  shows "hub_inv (subscribed s c client r d)"
proof -
  from inv have ok: "hub_ok (roomConsumers s) (joined s) (consumers_created s) (consumers_connected s)"
    by (simp add: hub_inv_def)
  have jn: "r' \<in> set (((joined s)(c := set_add r (joined s c))) c') \<longleftrightarrow>
                 (if r' = r then c' \<in> set (set_add c (rc_subscribers d))
                  else r' \<in> set (joined s c'))" for r' c'
    using ok d unfolding hub_ok_def by auto
  have "hub_ok ((roomConsumers s)(r \<mapsto> d\<lparr>rc_subscribers := set_add c (rc_subscribers d)\<rparr>))
          ((joined s)(c := set_add r (joined s c))) (consumers_created s) (consumers_connected s)"
    using ok d set_add_Nil jn by (rule hub_ok_resubscribe)
  then show ?thesis by (simp add: hub_inv_def joined_subscribed [OF cl])
qed

lemma hub_inv_subscribed_new:
  assumes inv: "hub_inv s" and cl: "clients s c = Some client"
    and d: "roomConsumers s r = None"
  shows "hub_inv (subscribed
           (s\<lparr>consumers_created := Suc (consumers_created s),
              consumers_connected := insert (consumers_created s) (consumers_connected s),
              roomConsumers := (roomConsumers s)(r \<mapsto>
                 \<lparr>rc_consumer = consumers_created s, rc_subscribers = []\<rparr>)\<rparr>)
           c client r \<lparr>rc_consumer = consumers_created s, rc_subscribers = []\<rparr>)"
proof -
  let ?s1 = "s\<lparr>consumers_created := Suc (consumers_created s),
              consumers_connected := insert (consumers_created s) (consumers_connected s),
              roomConsumers := (roomConsumers s)(r \<mapsto>
                 \<lparr>rc_consumer = consumers_created s, rc_subscribers = []\<rparr>)\<rparr>"
  from inv have ok: "hub_ok (roomConsumers s) (joined s) (consumers_created s) (consumers_connected s)"
    by (simp add: hub_inv_def)
  have cl1: "clients ?s1 c = Some client" using cl by simp
  have j1: "joined ?s1 = joined s" by (rule joined_cong) simp
  from hub_ok_new_entry [OF ok d, of c]
  show ?thesis by (simp add: hub_inv_def joined_subscribed [OF cl1] j1)
qed

lemma hub_inv_join:
  assumes inv: "hub_inv s"
  shows "hub_inv (fst (handleJoinRoom s e c u r))"
proof (cases "clients s c = None \<or> r \<notin> rooms s \<or> r \<in> set (joined s c)")
  case True
  then show ?thesis using inv by (simp add: join_refused)
next
  case False
  then obtain client where cl: "clients s c = Some client" and room: "r \<in> rooms s"
    and new: "r \<notin> set (c_rooms client)"
    by (cases "clients s c") (auto simp: joined_def)
  show ?thesis
  proof (cases "roomConsumers s r")
    case (Some d)
    note g = getOrCreate_existing [OF Some, of e]
    from hub_inv_subscribed_existing [OF inv cl new Some]
    show ?thesis by (simp add: join_continues [OF cl room new g])
  next
    case None
    show ?thesis
    proof (cases "broker_ok e")
      case True
      note g = getOrCreate_new [OF None True]
      from hub_inv_subscribed_new [OF inv cl None]
      show ?thesis by (simp add: join_continues [OF cl room new g])
    next
      case False
      note g = getOrCreate_failed [OF None False]
      from inv have ok: "hub_ok (roomConsumers s) (joined s) (consumers_created s)
                           (consumers_connected s)"
        by (simp add: hub_inv_def)
      let ?s1 = "s\<lparr>consumers_created := Suc (consumers_created s),
              consumers_connected :=
                (if connect_ok e then insert (consumers_created s) (consumers_connected s)
                 else consumers_connected s)\<rparr>"
      have j1: "joined ?s1 = joined s" by (rule joined_cong) simp
      have "hub_ok (roomConsumers s) (joined s) (Suc (consumers_created s))
              (if connect_ok e then insert (consumers_created s) (consumers_connected s)
               else consumers_connected s)"
        using ok by (rule hub_ok_grow) auto
      then have "hub_inv ?s1" by (simp add: hub_inv_def j1)
      then show ?thesis by (simp add: join_stops [OF cl room new g])
    qed
  qed
qed

lemma hub_inv_logout [simp]: "hub_inv (fst (logout s n h)) = hub_inv s"
proof (rule hub_inv_cong)
  show "joined (fst (logout s n h)) = joined s" by (rule joined_cong) simp
  show "consumers_created (fst (logout s n h)) = consumers_created s"
    "consumers_connected (fst (logout s n h)) = consumers_connected s"
    by (auto simp: logout_def redis_set_blacklist_def Let_def split: option.splits)
qed simp

lemma hub_inv_post_api_rooms [simp]: "hub_inv (fst (post_api_rooms s n h nm)) = hub_inv s"
proof (rule hub_inv_cong)
  show "joined (fst (post_api_rooms s n h nm)) = joined s" by (rule joined_cong) simp
  show "consumers_created (fst (post_api_rooms s n h nm)) = consumers_created s"
    "consumers_connected (fst (post_api_rooms s n h nm)) = consumers_connected s"
    by (simp_all add: post_api_rooms_def createRoom_def Let_def split: sum.splits)
qed simp

lemma hub_inv_storage [simp]: "hub_inv (storage_eachMessage s e t m) = hub_inv s"
proof (rule hub_inv_cong)
  show "joined (storage_eachMessage s e t m) = joined s" by (rule joined_cong) simp
  show "consumers_created (storage_eachMessage s e t m) = consumers_created s"
    "consumers_connected (storage_eachMessage s e t m) = consumers_connected s"
    by (simp_all add: storage_eachMessage_eq)
qed simp

lemma hub_inv_room_eachMessage [simp]: "hub_inv (room_eachMessage s r m) = hub_inv s"
proof (rule hub_inv_cong)
  show "joined (room_eachMessage s r m) = joined s"
    by (simp add: room_eachMessage_def split: option.splits)
qed simp_all

lemma hub_inv_handleChatMessage [simp]:
  "hub_inv (handleChatMessage s e c u r content) = hub_inv s"
proof (cases "clients s c")
  case None
  then show ?thesis by (simp add: handleChatMessage_def)
next
  case (Some client)
  show ?thesis
  proof (cases "r \<in> set (c_rooms client)")
    case False
    then show ?thesis by (simp add: send_not_joined [OF Some])
  next
    case True
    show ?thesis
    proof (cases "blank content")
      case True
      then show ?thesis by (simp add: send_blank [OF Some \<open>r \<in> set (c_rooms client)\<close>])
    next
      case False
      then obtain body where c: "content = Some body" by (cases content) (simp_all add: blank_def)
      show ?thesis
      proof (cases "send_ok e")
        case ok: True
        let ?s' = "s\<lparr>topics := (topics s)(TOPIC_PREFIX @ r :=
                   topics s (TOPIC_PREFIX @ r) @ [chat_message u r body e]),
                chat_history := (chat_history s)(r :=
                   take 50 (chat_message u r body e # chat_history s r))\<rparr>"
        have "joined ?s' = joined s" by (rule joined_cong) simp
        then have "hub_inv ?s' = hub_inv s" by (rule hub_inv_cong [rotated]) simp_all
        then show ?thesis
          unfolding send_accepted [OF Some True c False ok] .
      next
        case no: False
        show ?thesis by (simp add: send_publish_failed [OF Some True False no])
      qed
    qed
  qed
qed

lemma hub_inv_on_message:
  assumes "hub_inv s"
  shows "hub_inv (on_message s e c u f)"
proof (cases f)
  case (JoinReq r)
  obtain s' k where j: "handleJoinRoom s e c u r = (s', k)" by (cases "handleJoinRoom s e c u r")
  from hub_inv_join [OF assms, of e c u r] have "hub_inv s'" by (simp add: j)
  then show ?thesis using JoinReq j by (cases k) (simp_all add: on_message_def)
next
  case (LeaveReq r)
  then show ?thesis using assms by (simp add: on_message_def hub_inv_leave)
qed (use assms in \<open>simp_all add: on_message_def\<close>)

lemma hub_inv_step:
  assumes "hub_inv s" "admissible s e ev"
  shows "hub_inv (step s e ev)"
proof (cases ev)
  case (WsConnect tok)
  with assms show ?thesis by (simp add: step_def admissible_def hub_inv_on_connection)
next
  case (WsMessage c f)
  with assms(1) show ?thesis
    by (cases "clients s c") (simp_all add: step_def hub_inv_on_message)
next
  case (WsClose c env)
  with assms(1) show ?thesis by (simp add: step_def hub_inv_on_close)
qed (use assms(1) in \<open>simp_all add: step_def\<close>)

lemma hub_inv_startup: "hub_inv (startup t)"
proof -
  have "roomConsumers (startup t) = Map.empty" "clients (startup t) = Map.empty"
    by (simp_all add: startup_def initializeDefaultRooms_def empty_server_def DEFAULT_ROOMS_def)
  then show ?thesis by (simp add: hub_inv_def hub_ok_def joined_def)
qed

lemma reach_hub_inv: "reach t s \<Longrightarrow> hub_inv s"
  by (induction rule: reach.induct) (simp_all add: hub_inv_startup hub_inv_step)

lemma subscriber_set_joined:
  assumes "hub_inv s"
  shows "subscriber_set s r = {c. r \<in> set (joined s c)}"
proof (cases "roomConsumers s r")
  case None
  with assms show ?thesis by (auto simp: subscriber_set_def hub_inv_def hub_ok_def)
next
  case (Some d)
  with assms show ?thesis by (auto simp: subscriber_set_def hub_inv_def hub_ok_def)
qed

lemma entry_iff_subscribers:
  assumes "hub_inv s"
  shows "(roomConsumers s r \<noteq> None) = (subscriber_set s r \<noteq> {})"
proof (cases "roomConsumers s r")
  case None
  then show ?thesis by (simp add: subscriber_set_def)
next
  case (Some d)
  with assms have "rc_subscribers d \<noteq> []" by (simp add: hub_inv_def hub_ok_def)
  with Some show ?thesis by (simp add: subscriber_set_def)
qed

lemma joined_leave_other:
  assumes "c' \<noteq> c"
  shows "joined (handleLeaveRoom s e c r) c' = joined s c'"
proof (cases "r \<in> set (joined s c)")
  case True
  then show ?thesis using assms by (simp add: leave_joined)
next
  case False
  then show ?thesis by (simp add: handleLeaveRoom_noop)
qed

lemma joined_leave_rooms_other:
  assumes "c' \<noteq> c"
  shows "joined (leave_rooms s env c rs) c' = joined s c'"
  using assms by (induction rs arbitrary: s) (simp_all add: joined_leave_other)

lemma joined_on_close:
  "joined (on_close s env c) = (joined s)(c := [])"
proof (cases "clients s c")
  case None
  then have "joined s c = []" by (simp add: joined_def)
  then have "(joined s)(c := []) = joined s" by auto
  with None show ?thesis by (simp add: on_close_def)
next
  case (Some client)
  show ?thesis
  proof (rule ext)
    fix c'
    show "joined (on_close s env c) c' = ((joined s)(c := [])) c'"
    proof (cases "c' = c")
      case True
      then show ?thesis by (simp add: on_close_def Some Let_def joined_def)
    next
      case False
      then have "joined (leave_rooms s env c (c_rooms client)) c' = joined s c'"
        by (rule joined_leave_rooms_other)
      then show ?thesis using False by (simp add: on_close_def Some Let_def joined_def)
    qed
  qed
qed

lemma join_keeps_count:
  assumes "roomConsumers s r \<noteq> None"
  shows "consumers_created (fst (handleJoinRoom s e c u r)) = consumers_created s"
proof -
  from assms obtain d where d: "roomConsumers s r = Some d" by blast
  show ?thesis
  proof (cases "clients s c = None \<or> r \<notin> rooms s \<or> r \<in> set (joined s c)")
    case True
    show ?thesis
    proof (cases "clients s c")
      case None
      then show ?thesis by (simp add: handleJoinRoom_unfold)
    next
      case (Some client)
      with True have "r \<notin> rooms s \<or> r \<in> set (c_rooms client)" by (simp add: joined_def)
      with Some show ?thesis by (auto simp: handleJoinRoom_unfold)
    qed
  next
    case False
    then obtain client where cl: "clients s c = Some client" and room: "r \<in> rooms s"
      and new: "r \<notin> set (c_rooms client)"
      by (cases "clients s c") (auto simp: joined_def)
    show ?thesis
      by (simp add: join_continues [OF cl room new getOrCreate_existing [OF d]])
  qed
qed

lemma join_creates_entry:
  assumes "hub_inv s" "clients s c = Some client" "r \<in> rooms s" "roomConsumers s r = None"
    "broker_ok e"
  shows "roomConsumers (fst (handleJoinRoom s e c u r))
           = (roomConsumers s)(r \<mapsto> \<lparr>rc_consumer = consumers_created s, rc_subscribers = [c]\<rparr>)"
    and "consumers_created (fst (handleJoinRoom s e c u r)) = Suc (consumers_created s)"
proof -
  from assms(1,4) have "r \<notin> set (joined s c)" by (auto simp: hub_inv_def hub_ok_def)
  with assms(2) have new: "r \<notin> set (c_rooms client)" by (simp add: joined_def)
  note eq = join_continues [OF assms(2,3) new getOrCreate_new [OF assms(4,5)]]
  show "roomConsumers (fst (handleJoinRoom s e c u r))
           = (roomConsumers s)(r \<mapsto> \<lparr>rc_consumer = consumers_created s, rc_subscribers = [c]\<rparr>)"
    and "consumers_created (fst (handleJoinRoom s e c u r)) = Suc (consumers_created s)"
    unfolding eq by (simp_all add: set_add_def)
qed

lemma leave_removes_entry:
  assumes "r \<in> set (joined s c)" "subscriber_set s r = {c}"
  shows "roomConsumers (handleLeaveRoom s e c r) r = None"
    and "disconnect_ok e \<Longrightarrow> roomConsumers s r = Some d \<Longrightarrow>
           rc_consumer d \<notin> consumers_connected (handleLeaveRoom s e c r)"
proof -
  from assms(2) obtain d' where d': "roomConsumers s r = Some d'" "set (rc_subscribers d') = {c}"
    by (cases "roomConsumers s r") (simp_all add: subscriber_set_def)
  then have last: "set_delete c (rc_subscribers d') = []" by (simp add: set_delete_Nil)
  show "roomConsumers (handleLeaveRoom s e c r) r = None"
    by (simp add: leave_last(1) [OF assms(1) d'(1) last])
  show "rc_consumer d \<notin> consumers_connected (handleLeaveRoom s e c r)"
    if "disconnect_ok e" "roomConsumers s r = Some d"
    using that d'(1) by (simp add: leave_last(2) [OF assms(1) d'(1) last])
qed

text \<open>
  What the handlers keep when none of them runs during the pause of another, that is in
  every state of \<open>reach\<close>: a room has an entry in the consumer registry exactly when its
  subscriber set is not empty; the subscriber set is the set of clients that have joined
  the room, and the consumer of an entry is connected. A leave by the only subscriber
  removes the room's entry (and disconnects its consumer when the broker call succeeds);
  a disconnect removes the client from the subscriber set of every room; a join on a room
  without entry, when the broker calls succeed, creates one consumer and one entry
  holding the joining client, and a join on a room with an entry creates no consumer.
\<close>

lemma uninterrupted_hub_invariant:
  assumes "reach t s"
  shows "(roomConsumers s r \<noteq> None) = (subscriber_set s r \<noteq> {})
       \<and> subscriber_set s r = {c'. r \<in> set (joined s c')}
       \<and> (\<forall>d. roomConsumers s r = Some d \<longrightarrow> rc_consumer d \<in> consumers_connected s)
       \<and> (r \<in> set (joined s c) \<and> subscriber_set s r = {c} \<longrightarrow>
            roomConsumers (handleLeaveRoom s e c r) r = None
          \<and> (\<forall>d. disconnect_ok e \<and> roomConsumers s r = Some d \<longrightarrow>
                 rc_consumer d \<notin> consumers_connected (handleLeaveRoom s e c r)))
       \<and> subscriber_set (on_close s env c) r = subscriber_set s r - {c}
       \<and> (clients s c = Some client \<and> r \<in> rooms s \<and> roomConsumers s r = None \<and> broker_ok e \<longrightarrow>
            roomConsumers (fst (handleJoinRoom s e c u r))
              = (roomConsumers s)(r \<mapsto>
                  \<lparr>rc_consumer = consumers_created s, rc_subscribers = [c]\<rparr>)
          \<and> consumers_created (fst (handleJoinRoom s e c u r)) = Suc (consumers_created s))
       \<and> (roomConsumers s r \<noteq> None \<longrightarrow>
            consumers_created (fst (handleJoinRoom s e c u r)) = consumers_created s)"
proof -
  from assms have inv: "hub_inv s" by (rule reach_hub_inv)
  then have ok: "hub_ok (roomConsumers s) (joined s) (consumers_created s) (consumers_connected s)"
    by (simp add: hub_inv_def)
  have 1: "(roomConsumers s r \<noteq> None) = (subscriber_set s r \<noteq> {})"
    using inv by (rule entry_iff_subscribers)
  have 2: "subscriber_set s r = {c'. r \<in> set (joined s c')}"
    using inv by (rule subscriber_set_joined)
  have 3: "\<forall>d. roomConsumers s r = Some d \<longrightarrow> rc_consumer d \<in> consumers_connected s"
    using ok unfolding hub_ok_def by blast
  have 4: "r \<in> set (joined s c) \<and> subscriber_set s r = {c} \<longrightarrow>
            roomConsumers (handleLeaveRoom s e c r) r = None
          \<and> (\<forall>d. disconnect_ok e \<and> roomConsumers s r = Some d \<longrightarrow>
                 rc_consumer d \<notin> consumers_connected (handleLeaveRoom s e c r))"
  proof (intro impI conjI allI; elim conjE)
    assume a: "r \<in> set (joined s c)" "subscriber_set s r = {c}"
    then show "roomConsumers (handleLeaveRoom s e c r) r = None" by (rule leave_removes_entry(1))
    fix d assume "disconnect_ok e" "roomConsumers s r = Some d"
    with a show "rc_consumer d \<notin> consumers_connected (handleLeaveRoom s e c r)"
      by (rule leave_removes_entry(2))
  qed
  have "hub_inv (on_close s env c)" using inv by (rule hub_inv_on_close)
  then have "subscriber_set (on_close s env c) r = {c'. r \<in> set (joined (on_close s env c) c')}"
    by (rule subscriber_set_joined)
  then have 5: "subscriber_set (on_close s env c) r = subscriber_set s r - {c}"
    unfolding 2 joined_on_close by (auto split: if_splits)
  have 6: "clients s c = Some client \<and> r \<in> rooms s \<and> roomConsumers s r = None \<and> broker_ok e \<longrightarrow>
            roomConsumers (fst (handleJoinRoom s e c u r))
              = (roomConsumers s)(r \<mapsto>
                  \<lparr>rc_consumer = consumers_created s, rc_subscribers = [c]\<rparr>)
          \<and> consumers_created (fst (handleJoinRoom s e c u r)) = Suc (consumers_created s)"
  proof (intro impI conjI; elim conjE)
    assume a: "clients s c = Some client" "r \<in> rooms s" "roomConsumers s r = None" "broker_ok e"
    from inv a show "roomConsumers (fst (handleJoinRoom s e c u r))
              = (roomConsumers s)(r \<mapsto>
                  \<lparr>rc_consumer = consumers_created s, rc_subscribers = [c]\<rparr>)"
      by (rule join_creates_entry(1))
    from inv a show "consumers_created (fst (handleJoinRoom s e c u r)) = Suc (consumers_created s)"
      by (rule join_creates_entry(2))
  qed
  have 7: "roomConsumers s r \<noteq> None \<longrightarrow>
            consumers_created (fst (handleJoinRoom s e c u r)) = consumers_created s"
    by (intro impI) (rule join_keeps_count)
  show ?thesis
    by (rule conjI [OF 1 conjI [OF 2 conjI [OF 3 conjI [OF 4 conjI [OF 5 conjI [OF 6 7]]]]]])
qed

text \<open>
  Two joins of a room without entry, the second starting while the first awaits the
  broker calls of \<open>getOrCreateRoomConsumer\<close>: both find no entry and both create a
  consumer; the second registration replaces the first, so that in the end the room's
  entry lists \<open>c2\<close> only, \<open>c1\<close> has joined the room without being in its entry, and
  consumer 0 is connected without being in the registry.
\<close>

lemma overlapping_joins_create_two_consumers:
  "''general'' \<in> rooms both_connected
   \<and> joined both_connected ''c1'' = [] \<and> joined both_connected ''c2'' = []
   \<and> roomConsumers both_connected ''general'' = None
   \<and> snd (consumer_begin both_connected ''general'') = Some 0
   \<and> snd (consumer_begin first_waits ''general'') = Some 1
   \<and> snd (consumer_resume second_waits (ok_io 3000 ''j1'') ''general'' 0) = Done
   \<and> roomConsumers first_registered ''general'' = Some \<lparr>rc_consumer = 0, rc_subscribers = []\<rparr>
   \<and> roomConsumers first_joined ''general''
        = Some \<lparr>rc_consumer = 0, rc_subscribers = [''c1'']\<rparr>
   \<and> snd (consumer_resume first_joined (ok_io 4000 ''j2'') ''general'' 1) = Done
   \<and> roomConsumers second_registered ''general''
        = Some \<lparr>rc_consumer = 1, rc_subscribers = []\<rparr>
   \<and> roomConsumers second_joined ''general''
        = Some \<lparr>rc_consumer = 1, rc_subscribers = [''c2'']\<rparr>
   \<and> joined second_joined ''c1'' = [''general'']
   \<and> joined second_joined ''c2'' = [''general'']
   \<and> consumers_created second_joined = 2
   \<and> consumers_connected second_joined = {0, 1}"
  by code_simp

text \<open>
  Claim C1 fails on the code when a join is handled during the pause of a leave. \<open>c1\<close> is
  the only subscriber of \<open>general\<close> and \<open>c2\<close> is connected. The leave of \<open>c1\<close> empties the
  subscriber set and pauses at the disconnect of the consumer, with the entry still
  registered. The join of \<open>c2\<close> finds that entry, adds \<open>c2\<close> to it and completes: \<open>c2\<close>
  gets the history and its join notice is published. The leave then goes on and removes
  the entry. All three operations have completed, \<open>c2\<close> has joined \<open>general\<close>, and
  \<open>general\<close> has no entry in the registry and no connected consumer.
\<close>

theorem leave_join_race_loses_subscription:
  "admissible_run 0 (startup 0)
     (take 2 scenario @ [(ok_io 12000 ''c2'', WsConnect (Some alice_token))])
   \<and> roomConsumers two_clients ''general''
        = Some \<lparr>rc_consumer = 0, rc_subscribers = [''c1'']\<rparr>
   \<and> joined two_clients ''c1'' = [''general''] \<and> joined two_clients ''c2'' = []
   \<and> snd (leave_begin two_clients (ok_io 13000 ''l1'') ''c1'' ''general'') = Some (''Alice'', 0)
   \<and> roomConsumers leave_paused ''general'' = Some \<lparr>rc_consumer = 0, rc_subscribers = []\<rparr>
   \<and> roomConsumers joined_meanwhile ''general''
        = Some \<lparr>rc_consumer = 0, rc_subscribers = [''c2'']\<rparr>
   \<and> joined joined_meanwhile ''c2'' = [''general'']
   \<and> joined raced ''c1'' = []
   \<and> joined raced ''c2'' = [''general'']
   \<and> roomConsumers raced ''general'' = None
   \<and> consumers_connected raced = {}
   \<and> consumers_created raced = 1
   \<and> map_option c_sent (clients raced ''c2'')
        = Some [SystemFrame ''Welcome, Alice!'', HistoryFrame ''general'' [] ''recent'']
   \<and> topics raced ''chat_room_general''
        = [join_notice 5000 ''j1'', join_notice 14000 ''j2'',
           system_notice ''general'' ''Alice has left the room'' (ok_io 15000 ''l1'')]"
  by code_simp

end
